theory Spec2Isabelle
  imports Main "HOL-Library.AList"
begin

section \<open>OSM feature extraction: tag taxonomy, classification and geometry filter\<close>

text \<open>
  A shallow embedding of \<^verbatim>\<open>extract_selected_tags_from_osm_complete\<close>
  (pipelines/osm_data_extraction/nodes.py). The two OSMnx calls (geocoding the city and
  downloading the features) are not part of the embedding: the feature frame they return is
  a parameter of the model.
\<close>

subsection \<open>Python values\<close>

text \<open>The only exception the modelled code can raise is the \<^verbatim>\<open>KeyError\<close> of a subscript.\<close>

datatype py_error = KeyError string

text \<open>
  A shape carries the \<^verbatim>\<open>geom_type\<close> string the filter reads and the text that
  \<^verbatim>\<open>str\<close> gives for it, its WKT.
\<close>

record shape =
  geom_type :: string
  wkt :: string

text \<open>
  A cell of the feature frame: an OSM attribute is a string or is missing
  (\<^verbatim>\<open>None\<close>/\<^verbatim>\<open>NaN\<close>, for which \<^verbatim>\<open>pd.notna\<close> is false);
  the cell of the geometry column is a shape.
\<close>

datatype cell = Null | Str string | Geom shape

fun notna :: "cell \<Rightarrow> bool" where
  "notna Null = False"
| "notna (Str s) = True"
| "notna (Geom g) = True"

text \<open>What an f-string prints for a cell.\<close>

fun py_str :: "cell \<Rightarrow> string" where
  "py_str Null = ''nan''"
| "py_str (Str s) = s"
| "py_str (Geom g) = wkt g"

text \<open>
  The \<^verbatim>\<open>geometry\<close> value of a tag specification as YAML gives it: one string, or a
  list of strings.
\<close>

datatype geometry_constraint = GStr string | GList "string list"

subsection \<open>Configuration\<close>

text \<open>
  A tag specification is a dictionary that may or may not have the keys
  \<^verbatim>\<open>value\<close> and \<^verbatim>\<open>geometry\<close>; a category is a dictionary that may
  or may not have the keys \<^verbatim>\<open>category\<close> and \<^verbatim>\<open>tags\<close>. The
  \<^verbatim>\<open>tags\<close> dictionary is kept as the list of its items, in its iteration order.
\<close>

record tag_spec =
  tag_value :: "string option"
  geometry_spec :: "geometry_constraint option"

record category_config =
  category :: "string option"
  tags :: "(string \<times> tag_spec list) list option"

text \<open>
  The two dictionaries the configuration is parsed into, as lists of items in insertion
  order: \<^verbatim>\<open>osm_query_tags\<close> (tag key to list of values) and
  \<^verbatim>\<open>geometry_lookup\<close> (\<^verbatim>\<open>key=value\<close> to the declared geometry).
\<close>

type_synonym osm_query_tags = "(string \<times> string list) list"
type_synonym geometry_lookup = "(string \<times> geometry_constraint) list"

text \<open>
  Lines 45 to 54, the body of the innermost loop. The subscripts
  \<^verbatim>\<open>tag_spec["value"]\<close>, \<^verbatim>\<open>tag_spec["geometry"]\<close> and
  \<^verbatim>\<open>osm_query_tags[tag_key]\<close> raise \<^verbatim>\<open>KeyError\<close> on a missing key;
  appending to the list stored under \<^verbatim>\<open>tag_key\<close> keeps the key's position.
\<close>

definition register_spec ::
  "string \<Rightarrow> tag_spec \<Rightarrow> osm_query_tags \<times> geometry_lookup
     \<Rightarrow> py_error + osm_query_tags \<times> geometry_lookup" where
  "register_spec tag_key spec st =
     (case st of (qt, gl) \<Rightarrow>
       (case tag_value spec of
          None \<Rightarrow> Inl (KeyError ''value'')
        | Some v \<Rightarrow>
           (case geometry_spec spec of
              None \<Rightarrow> Inl (KeyError ''geometry'')
            | Some g \<Rightarrow>
               (case map_of qt tag_key of
                  None \<Rightarrow> Inl (KeyError tag_key)
                | Some vs \<Rightarrow>
                    Inr (if v \<in> set vs then qt else AList.update tag_key (vs @ [v]) qt,
                         AList.update (tag_key @ ''='' @ v) g gl)))))"

text \<open>Line 44: \<^verbatim>\<open>for tag_spec in tag_values\<close>; an exception leaves the loop.\<close>

fun for_tag_values ::
  "string \<Rightarrow> tag_spec list \<Rightarrow> osm_query_tags \<times> geometry_lookup
     \<Rightarrow> py_error + osm_query_tags \<times> geometry_lookup" where
  "for_tag_values tag_key [] st = Inr st"
| "for_tag_values tag_key (spec # rest) st =
     (case register_spec tag_key spec st of
        Inl e \<Rightarrow> Inl e
      | Inr st' \<Rightarrow> for_tag_values tag_key rest st')"

text \<open>Lines 41 and 42: a key seen for the first time gets an empty list, at the end.\<close>

definition ensure_key :: "string \<Rightarrow> osm_query_tags \<Rightarrow> osm_query_tags" where
  "ensure_key tag_key qt = (if map_of qt tag_key = None then qt @ [(tag_key, [])] else qt)"

text \<open>Line 39: \<^verbatim>\<open>for tag_key, tag_values in category_tags.items()\<close>.\<close>

fun for_category_tags ::
  "(string \<times> tag_spec list) list \<Rightarrow> osm_query_tags \<times> geometry_lookup
     \<Rightarrow> py_error + osm_query_tags \<times> geometry_lookup" where
  "for_category_tags [] st = Inr st"
| "for_category_tags ((tag_key, tag_values) # rest) st =
     (case for_tag_values tag_key tag_values (ensure_key tag_key (fst st), snd st) of
        Inl e \<Rightarrow> Inl e
      | Inr st' \<Rightarrow> for_category_tags rest st')"

text \<open>Line 37: \<^verbatim>\<open>category_config.get("tags", {})\<close>.\<close>

definition category_tags :: "category_config \<Rightarrow> (string \<times> tag_spec list) list" where
  "category_tags c = (case tags c of None \<Rightarrow> [] | Some t \<Rightarrow> t)"

text \<open>Line 35: \<^verbatim>\<open>for category_config in tags\<close>.\<close>

fun for_categories ::
  "category_config list \<Rightarrow> osm_query_tags \<times> geometry_lookup
     \<Rightarrow> py_error + osm_query_tags \<times> geometry_lookup" where
  "for_categories [] st = Inr st"
| "for_categories (c # rest) st =
     (case for_category_tags (category_tags c) st of
        Inl e \<Rightarrow> Inl e
      | Inr st' \<Rightarrow> for_categories rest st')"

text \<open>Lines 32 to 54: both dictionaries start empty.\<close>

definition parse_tags ::
  "category_config list \<Rightarrow> py_error + osm_query_tags \<times> geometry_lookup" where
  "parse_tags cfg = for_categories cfg ([], [])"

subsection \<open>The feature frame\<close>

text \<open>
  A row of the GeoDataFrame is a Series: its labelled attribute cells and the shape of its
  geometry column. The frame lists its column labels, \<^verbatim>\<open>geometry\<close> among them,
  and its rows in order.

  The geometry column is typed: every row has a shape, as every feature that OSMnx returns
  has. The shape is stored apart from the attribute cells, but \<^verbatim>\<open>geometry\<close> is a
  label of the row like any other: it is in \<^verbatim>\<open>row.index\<close>, and
  \<^verbatim>\<open>row["geometry"]\<close> is the shape. \<^verbatim>\<open>DataFrame.apply(f, axis=1)\<close>
  is the row-by-row map of \<^verbatim>\<open>f\<close>, in row order.
\<close>

record row =
  cells :: "string \<rightharpoonup> cell"
  geometry :: shape

record geodataframe =
  columns :: "string list"
  rows :: "row list"

text \<open>
  The invariant of a GeoDataFrame: it has a geometry column, and every row has one cell
  for each other column and no further cell.
\<close>

definition wf_frame :: "geodataframe \<Rightarrow> bool" where
  "wf_frame df \<longleftrightarrow>
     ''geometry'' \<in> set (columns df) \<and>
     list_all (\<lambda>r. dom (cells r) = set (columns df) - {''geometry''}) (rows df)"

text \<open>\<^verbatim>\<open>label in row.index\<close>.\<close>

definition in_index :: "string \<Rightarrow> row \<Rightarrow> bool" where
  "in_index label r \<longleftrightarrow> label = ''geometry'' \<or> cells r label \<noteq> None"

text \<open>\<^verbatim>\<open>row[label]\<close>.\<close>

definition row_getitem :: "row \<Rightarrow> string \<Rightarrow> py_error + cell" where
  "row_getitem r label =
     (if label = ''geometry'' then Inr (Geom (geometry r))
      else (case cells r label of None \<Rightarrow> Inl (KeyError label) | Some c \<Rightarrow> Inr c))"

text \<open>\<^verbatim>\<open>df[label] = values\<close>: a new column goes last, an old one is overwritten.\<close>

definition set_column :: "string \<Rightarrow> cell list \<Rightarrow> geodataframe \<Rightarrow> geodataframe" where
  "set_column label vals df =
     \<lparr>columns = (if label \<in> set (columns df) then columns df else columns df @ [label]),
      rows = map (\<lambda>(r, v). r\<lparr>cells := (cells r)(label \<mapsto> v)\<rparr>) (zip (rows df) vals)\<rparr>"

text \<open>\<^verbatim>\<open>df[labels]\<close>: a label that is not a column raises.\<close>

definition select_columns :: "string list \<Rightarrow> geodataframe \<Rightarrow> py_error + geodataframe" where
  "select_columns labels df =
     (case find (\<lambda>l. l \<notin> set (columns df)) labels of
        Some l \<Rightarrow> Inl (KeyError l)
      | None \<Rightarrow>
          Inr \<lparr>columns = labels,
               rows = map (\<lambda>r. r\<lparr>cells := cells r |` set labels\<rparr>) (rows df)\<rparr>)"

subsection \<open>Classification\<close>

text \<open>
  Lines 82 to 86 of \<^verbatim>\<open>get_osm_tag\<close>: the loop over
  \<^verbatim>\<open>osm_query_tags.keys()\<close>.
\<close>

fun scan_keys :: "string list \<Rightarrow> row \<Rightarrow> py_error + string" where
  "scan_keys [] r = Inr ''unknown''"
| "scan_keys (tag_key # rest) r =
     (if in_index tag_key r then
        (case row_getitem r tag_key of
           Inl e \<Rightarrow> Inl e
         | Inr c \<Rightarrow>
             if notna c then
               (case row_getitem r tag_key of
                  Inl e \<Rightarrow> Inl e
                | Inr v \<Rightarrow> Inr (tag_key @ ''='' @ py_str v))
             else scan_keys rest r)
      else scan_keys rest r)"

definition get_osm_tag :: "osm_query_tags \<Rightarrow> row \<Rightarrow> py_error + string" where
  "get_osm_tag qt r = scan_keys (map fst qt) r"

text \<open>\<^verbatim>\<open>features_gdf.apply(get_osm_tag, axis=1)\<close>: row by row, in order.\<close>

fun apply_get_osm_tag :: "osm_query_tags \<Rightarrow> row list \<Rightarrow> py_error + cell list" where
  "apply_get_osm_tag qt [] = Inr []"
| "apply_get_osm_tag qt (r # rest) =
     (case get_osm_tag qt r of
        Inl e \<Rightarrow> Inl e
      | Inr t \<Rightarrow>
         (case apply_get_osm_tag qt rest of
            Inl e \<Rightarrow> Inl e
          | Inr ts \<Rightarrow> Inr (Str t # ts)))"

text \<open>Line 88.\<close>

definition assign_osm_tag :: "osm_query_tags \<Rightarrow> geodataframe \<Rightarrow> py_error + geodataframe" where
  "assign_osm_tag qt df =
     (case apply_get_osm_tag qt (rows df) of
        Inl e \<Rightarrow> Inl e
      | Inr ts \<Rightarrow> Inr (set_column ''osm_tag'' ts df))"

subsection \<open>The geometry filter\<close>

text \<open>The two sets of lines 91 and 92, which the filter fills and the log prints.\<close>

record diagnostics =
  unknown_tags :: "cell set"
  excluded_by_geometry :: "string set"

definition no_diagnostics :: diagnostics where
  "no_diagnostics = \<lparr>unknown_tags = {}, excluded_by_geometry = {}\<rparr>"

text \<open>Lines 116 to 120, read with \<^verbatim>\<open>.get(allowed_type, [])\<close>.\<close>

definition geometry_type_mapping :: "(string \<times> string list) list" where
  "geometry_type_mapping =
     [(''point'', [''Point'']),
      (''area'', [''Polygon'', ''MultiPolygon'']),
      (''line'', [''LineString'', ''MultiLineString''])]"

definition mapping_get :: "string \<Rightarrow> string list" where
  "mapping_get allowed_type =
     (case map_of geometry_type_mapping allowed_type of None \<Rightarrow> [] | Some shapes \<Rightarrow> shapes)"

text \<open>Lines 123 to 125.\<close>

fun matches_allowed :: "string \<Rightarrow> string list \<Rightarrow> bool" where
  "matches_allowed gt [] = False"
| "matches_allowed gt (allowed_type # rest) =
     (if gt \<in> set (mapping_get allowed_type) then True else matches_allowed gt rest)"

text \<open>A dictionary with string keys, asked for a cell: only a string can be a key of it.\<close>

fun lookup_cell :: "geometry_lookup \<Rightarrow> cell \<Rightarrow> geometry_constraint option" where
  "lookup_cell gl Null = None"
| "lookup_cell gl (Str t) = map_of gl t"
| "lookup_cell gl (Geom g) = None"

text \<open>
  \<^verbatim>\<open>should_keep_feature\<close>, lines 94 to 129: the verdict and the two sets as it
  leaves them.
\<close>

definition should_keep_feature ::
  "geometry_lookup \<Rightarrow> row \<Rightarrow> diagnostics \<Rightarrow> py_error + bool \<times> diagnostics" where
  "should_keep_feature gl r d =
     (let gt = geom_type (geometry r) in
      case row_getitem r ''osm_tag'' of
        Inl e \<Rightarrow> Inl e
      | Inr osm_tag \<Rightarrow>
          if osm_tag = Str ''unknown'' \<or> lookup_cell gl osm_tag = None then
            Inr (False, d\<lparr>unknown_tags := insert osm_tag (unknown_tags d)\<rparr>)
          else
            (case lookup_cell gl osm_tag of
               None \<Rightarrow> Inl (KeyError (py_str osm_tag))
             | Some allowed_geometries \<Rightarrow>
                 if allowed_geometries = GStr ''any'' then Inr (True, d)
                 else
                   let allowed = (case allowed_geometries of GStr s \<Rightarrow> [s] | GList l \<Rightarrow> l) in
                   if matches_allowed gt allowed then Inr (True, d)
                   else
                     Inr (False,
                          d\<lparr>excluded_by_geometry :=
                              insert (py_str osm_tag @ '' (geometry: '' @ gt @ '')'')
                                (excluded_by_geometry d)\<rparr>)))"

text \<open>
  \<^verbatim>\<open>features_gdf.apply(should_keep_feature, axis=1)\<close>: the flags, row by row, the
  two sets handed on from one row to the next.
\<close>

fun apply_should_keep ::
  "geometry_lookup \<Rightarrow> row list \<Rightarrow> diagnostics \<Rightarrow> py_error + bool list \<times> diagnostics" where
  "apply_should_keep gl [] d = Inr ([], d)"
| "apply_should_keep gl (r # rest) d =
     (case should_keep_feature gl r d of
        Inl e \<Rightarrow> Inl e
      | Inr (keep, d') \<Rightarrow>
         (case apply_should_keep gl rest d' of
            Inl e \<Rightarrow> Inl e
          | Inr (flags, d'') \<Rightarrow> Inr (keep # flags, d'')))"

text \<open>Line 131: the rows whose flag is true, in their order.\<close>

definition filter_features ::
  "geometry_lookup \<Rightarrow> geodataframe \<Rightarrow> py_error + geodataframe \<times> diagnostics" where
  "filter_features gl df =
     (case apply_should_keep gl (rows df) no_diagnostics of
        Inl e \<Rightarrow> Inl e
      | Inr (flags, d) \<Rightarrow>
          Inr (df\<lparr>rows := map fst (filter snd (zip (rows df) flags))\<rparr>, d))"

text \<open>Lines 88 to 131: classification, then the filter.\<close>

definition classify_and_filter ::
  "osm_query_tags \<Rightarrow> geometry_lookup \<Rightarrow> geodataframe
     \<Rightarrow> py_error + geodataframe \<times> diagnostics" where
  "classify_and_filter qt gl df =
     (case assign_osm_tag qt df of
        Inl e \<Rightarrow> Inl e
      | Inr classified \<Rightarrow> filter_features gl classified)"

subsection \<open>The output\<close>

text \<open>Lines 144 to 148: a frame without a \<^verbatim>\<open>name\<close> column gets one, all null.\<close>

definition ensure_name :: "geodataframe \<Rightarrow> geodataframe" where
  "ensure_name df =
     (if ''name'' \<in> set (columns df) then df
      else set_column ''name'' (replicate (length (rows df)) Null) df)"

text \<open>Lines 141 to 154.\<close>

definition project_result :: "geodataframe \<Rightarrow> py_error + geodataframe" where
  "project_result df = select_columns [''name'', ''osm_tag'', ''geometry''] (ensure_name df)"

text \<open>
  The function as a whole, from the configuration and the downloaded frame to the result
  frame; the two sets it logs are returned with it.
\<close>

definition extract_selected_tags_from_osm_complete ::
  "category_config list \<Rightarrow> geodataframe \<Rightarrow> py_error + geodataframe \<times> diagnostics" where
  "extract_selected_tags_from_osm_complete cfg features_gdf =
     (case parse_tags cfg of
        Inl e \<Rightarrow> Inl e
      | Inr (qt, gl) \<Rightarrow>
         (case classify_and_filter qt gl features_gdf of
            Inl e \<Rightarrow> Inl e
          | Inr (kept, d) \<Rightarrow>
             (case project_result kept of
                Inl e \<Rightarrow> Inl e
              | Inr result_gdf \<Rightarrow> Inr (result_gdf, d))))"

section \<open>Notions for stating the properties\<close>

subsection \<open>The configuration, read in its order\<close>

text \<open>
  Every \<^verbatim>\<open>(tagKey, TagValueSpec)\<close> pair of a configuration, and every tag key, in
  configuration order: categories first to last, inside a category its keys in order, under
  a key its specifications in order.
\<close>

definition item_declarations :: "(string \<times> tag_spec list) list \<Rightarrow> (string \<times> tag_spec) list" where
  "item_declarations items = concat (map (\<lambda>(k, specs). map (Pair k) specs) items)"

definition declarations :: "category_config list \<Rightarrow> (string \<times> tag_spec) list" where
  "declarations cfg = concat (map (\<lambda>c. item_declarations (category_tags c)) cfg)"

definition declared_keys :: "category_config list \<Rightarrow> string list" where
  "declared_keys cfg = concat (map (\<lambda>c. map fst (category_tags c)) cfg)"

text \<open>A specification that has both of its fields.\<close>

definition complete_spec :: "tag_spec \<Rightarrow> bool" where
  "complete_spec s \<longleftrightarrow> tag_value s \<noteq> None \<and> geometry_spec s \<noteq> None"

definition all_complete :: "(string \<times> tag_spec) list \<Rightarrow> bool" where
  "all_complete ds = list_all (\<lambda>d. complete_spec (snd d)) ds"

text \<open>
  The entry of the geometry lookup that one declaration writes (none when a field is
  missing), and the entries of a list of declarations, in order.
\<close>

definition entry :: "string \<times> tag_spec \<Rightarrow> (string \<times> geometry_constraint) list" where
  "entry ks =
     (case tag_value (snd ks) of
        None \<Rightarrow> []
      | Some v \<Rightarrow>
          (case geometry_spec (snd ks) of None \<Rightarrow> [] | Some g \<Rightarrow> [(fst ks @ ''='' @ v, g)]))"

definition entries :: "(string \<times> tag_spec) list \<Rightarrow> (string \<times> geometry_constraint) list" where
  "entries ds = concat (map entry ds)"

text \<open>
  The set of values the query dictionary holds for a key, and the set of values a list of
  declarations gives a key.
\<close>

definition vals :: "osm_query_tags \<Rightarrow> string \<Rightarrow> string set" where
  "vals qt k = (case map_of qt k of None \<Rightarrow> {} | Some vs \<Rightarrow> set vs)"

definition declared_values :: "(string \<times> tag_spec) list \<Rightarrow> string \<Rightarrow> string set" where
  "declared_values ds k = {v. \<exists>s. (k, s) \<in> set ds \<and> tag_value s = Some v}"

subsection \<open>Classification\<close>

text \<open>
  A key is present on a feature with a non-null value: the value as the tag prints it, if
  so. The label \<^verbatim>\<open>geometry\<close> is present on every feature, its value the shape.
\<close>

definition cell_value :: "row \<Rightarrow> string \<Rightarrow> string option" where
  "cell_value r k =
     (if k = ''geometry'' then Some (wkt (geometry r))
      else (case cells r k of
              None \<Rightarrow> None
            | Some Null \<Rightarrow> None
            | Some (Str v) \<Rightarrow> Some v
            | Some (Geom g) \<Rightarrow> Some (wkt g)))"

text \<open>
  The canonical tag in closed form: the first query key with a value on the feature, and
  the row with that tag stored in its \<^verbatim>\<open>osm_tag\<close> cell.
\<close>

definition canonical_tag :: "osm_query_tags \<Rightarrow> row \<Rightarrow> string" where
  "canonical_tag qt r =
     (case find (\<lambda>k. cell_value r k \<noteq> None) (map fst qt) of
        None \<Rightarrow> ''unknown''
      | Some k \<Rightarrow> k @ ''='' @ the (cell_value r k))"

definition classify_row :: "osm_query_tags \<Rightarrow> row \<Rightarrow> row" where
  "classify_row qt r = r\<lparr>cells := (cells r)(''osm_tag'' \<mapsto> Str (canonical_tag qt r))\<rparr>"

definition classified_frame :: "osm_query_tags \<Rightarrow> geodataframe \<Rightarrow> geodataframe" where
  "classified_frame qt df =
     \<lparr>columns = (if ''osm_tag'' \<in> set (columns df) then columns df else columns df @ [''osm_tag'']),
      rows = map (classify_row qt) (rows df)\<rparr>"

subsection \<open>The geometry validator of the specification\<close>

text \<open>
  Section 4.3 in its own words: the decision, the fixed mapping from a shape to its atomic
  kind, the allowed set of a constraint, and the four steps of \<^verbatim>\<open>accept\<close>.
\<close>

datatype spec_decision = Keep | Reject_unrecognizedTag | Reject_geometryMismatch

definition spec_atomic_kind :: "string \<Rightarrow> string option" where
  "spec_atomic_kind shp =
     map_of [(''Point'', ''point''),
             (''Polygon'', ''area''), (''MultiPolygon'', ''area''),
             (''LineString'', ''line''), (''MultiLineString'', ''line'')] shp"

fun spec_allowed_set :: "geometry_constraint \<Rightarrow> string set" where
  "spec_allowed_set (GStr s) = {s}"
| "spec_allowed_set (GList l) = set l"

definition spec_accept :: "geometry_lookup \<Rightarrow> string \<Rightarrow> string \<Rightarrow> spec_decision" where
  "spec_accept gl canonicalTag shp =
     (if canonicalTag = ''unknown'' then Reject_unrecognizedTag
      else
        (case map_of gl canonicalTag of
           None \<Rightarrow> Reject_unrecognizedTag
         | Some c \<Rightarrow>
             if c = GStr ''any'' then Keep
             else
               (case spec_atomic_kind shp of
                  None \<Rightarrow> Reject_geometryMismatch
                | Some k \<Rightarrow> if k \<in> spec_allowed_set c then Keep else Reject_geometryMismatch)))"

text \<open>The verdict of the filter on a row, and the text of a mismatch entry.\<close>

definition keeps :: "geometry_lookup \<Rightarrow> row \<Rightarrow> bool" where
  "keeps gl r =
     (case should_keep_feature gl r no_diagnostics of Inl e \<Rightarrow> False | Inr res \<Rightarrow> fst res)"

definition mismatch_text :: "cell \<Rightarrow> row \<Rightarrow> string" where
  "mismatch_text c r = py_str c @ '' (geometry: '' @ geom_type (geometry r) @ '')''"

text \<open>The test of line 100 on the cell of the \<^verbatim>\<open>osm_tag\<close> column.\<close>

definition unrecognized :: "geometry_lookup \<Rightarrow> cell \<Rightarrow> bool" where
  "unrecognized gl c \<longleftrightarrow> c = Str ''unknown'' \<or> lookup_cell gl c = None"

text \<open>
  The row of the result for a kept row: the three result columns, with a null name when the
  frame has no \<^verbatim>\<open>name\<close> column.
\<close>

definition project_row :: "bool \<Rightarrow> row \<Rightarrow> row" where
  "project_row has_name r =
     r\<lparr>cells := (if has_name then cells r else (cells r)(''name'' \<mapsto> Null))
                   |` set [''name'', ''osm_tag'', ''geometry'']\<rparr>"

subsection \<open>Properties of section 8\<close>

text \<open>
  Idempotence speaks of running the extraction on its own output: the same configuration,
  the result frame as the feature frame.
\<close>

definition rerun ::
  "category_config list \<Rightarrow> geodataframe \<Rightarrow> py_error + geodataframe \<times> diagnostics" where
  "rerun cfg features_gdf =
     (case extract_selected_tags_from_osm_complete cfg features_gdf of
        Inl e \<Rightarrow> Inl e
      | Inr (result_gdf, d) \<Rightarrow> extract_selected_tags_from_osm_complete cfg result_gdf)"

text \<open>
  The tag round trip speaks of splitting a tag on \<^verbatim>\<open>=\<close>: Python's
  \<^verbatim>\<open>str.split\<close> with a one-character separator.
\<close>

fun split_on :: "char \<Rightarrow> string \<Rightarrow> string list" where
  "split_on sep [] = [[]]"
| "split_on sep (c # cs) =
     (if c = sep then [] # split_on sep cs
      else (case split_on sep cs of [] \<Rightarrow> [[c]] | p # ps \<Rightarrow> (c # p) # ps))"

text \<open>
  What a run shows of its result: name, tag and shape of every row of the frame, and the
  two sets.
\<close>

definition run_summary ::
  "py_error + geodataframe \<times> diagnostics
     \<Rightarrow> py_error + (cell option \<times> cell option \<times> shape) list \<times> cell set \<times> string set" where
  "run_summary res =
     (case res of
        Inl e \<Rightarrow> Inl e
      | Inr (out, d) \<Rightarrow>
          Inr (map (\<lambda>r. (cells r ''name'', cells r ''osm_tag'', geometry r)) (rows out),
               unknown_tags d, excluded_by_geometry d))"

section \<open>Example configurations and features\<close>

definition park_row :: "string \<Rightarrow> row" where
  "park_row gt =
     \<lparr>cells = [''leisure'' \<mapsto> Str ''park'', ''osm_tag'' \<mapsto> Str ''leisure=park''],
      geometry = \<lparr>geom_type = gt, wkt = []\<rparr>\<rparr>"

definition empty_geometry_cfg :: "category_config list" where
  "empty_geometry_cfg =
     [\<lparr>category = Some ''Green'',
       tags = Some [(''leisure'',
                     [\<lparr>tag_value = Some ''park'', geometry_spec = Some (GList [])\<rparr>])]\<rparr>]"


definition park_twice_cfg :: "category_config list" where
  "park_twice_cfg =
     [\<lparr>category = Some ''Green'',
       tags = Some [(''park'',
                     [\<lparr>tag_value = Some ''yes'', geometry_spec = Some (GStr ''area'')\<rparr>])]\<rparr>,
      \<lparr>category = Some ''Leisure'',
       tags = Some [(''park'',
                     [\<lparr>tag_value = Some ''yes'',
                       geometry_spec = Some (GList [''point'', ''area''])\<rparr>])]\<rparr>]"

definition cycleway_cfg :: "category_config list" where
  "cycleway_cfg =
     [\<lparr>category = Some ''Mobility'',
       tags = Some [(''highway'',
                     [\<lparr>tag_value = Some ''cycleway'', geometry_spec = Some (GList [''line''])\<rparr>])]\<rparr>,
      \<lparr>category = Some ''Furniture'',
       tags = Some [(''amenity'',
                     [\<lparr>tag_value = Some ''bench'', geometry_spec = Some (GStr ''any'')\<rparr>])]\<rparr>]"

definition cycleway_row :: row where
  "cycleway_row =
     \<lparr>cells = [''amenity'' \<mapsto> Str ''bench'', ''highway'' \<mapsto> Str ''cycleway'', ''name'' \<mapsto> Null],
      geometry = \<lparr>geom_type = ''LineString'', wkt = ''LINESTRING (0 0, 1 1)''\<rparr>\<rparr>"

definition untagged_row :: row where
  "untagged_row =
     \<lparr>cells = [''amenity'' \<mapsto> Null, ''name'' \<mapsto> Str ''Elm''],
      geometry = \<lparr>geom_type = ''Point'', wkt = ''POINT (0 0)''\<rparr>\<rparr>"

definition park_cfg :: "category_config list" where
  "park_cfg =
     [\<lparr>category = Some ''Green'',
       tags = Some [(''leisure'',
                     [\<lparr>tag_value = Some ''park'', geometry_spec = Some (GStr ''area'')\<rparr>])]\<rparr>]"

definition three_features_gdf :: geodataframe where
  "three_features_gdf =
     \<lparr>columns = [''leisure'', ''geometry''],
      rows = [\<lparr>cells = [''leisure'' \<mapsto> Str ''park''],
               geometry = \<lparr>geom_type = ''Polygon'', wkt = ''POLYGON ((0 0, 1 0, 1 1, 0 0))''\<rparr>\<rparr>,
              \<lparr>cells = [''leisure'' \<mapsto> Str ''park''],
               geometry = \<lparr>geom_type = ''Point'', wkt = ''POINT (2 2)''\<rparr>\<rparr>,
              \<lparr>cells = [''leisure'' \<mapsto> Null],
               geometry = \<lparr>geom_type = ''Point'', wkt = ''POINT (3 3)''\<rparr>\<rparr>]\<rparr>"

definition equals_cfg :: "category_config list" where
  "equals_cfg =
     [\<lparr>category = Some ''Odd'',
       tags = Some [(''a=b'',
                     [\<lparr>tag_value = Some ''c=d'', geometry_spec = Some (GStr ''any'')\<rparr>])]\<rparr>]"

definition equals_gdf :: geodataframe where
  "equals_gdf =
     \<lparr>columns = [''a=b'', ''geometry''],
      rows = [\<lparr>cells = [''a=b'' \<mapsto> Str ''c=d''],
               geometry = \<lparr>geom_type = ''Point'', wkt = ''POINT (0 0)''\<rparr>\<rparr>]\<rparr>"

definition geometry_key_cfg :: "category_config list" where
  "geometry_key_cfg =
     [\<lparr>category = Some ''Odd'',
       tags = Some [(''geometry'',
                     [\<lparr>tag_value = Some ''yes'', geometry_spec = Some (GStr ''any'')\<rparr>]),
                    (''leisure'',
                     [\<lparr>tag_value = Some ''park'', geometry_spec = Some (GStr ''any'')\<rparr>])]\<rparr>]"

definition park_point_row :: row where
  "park_point_row =
     \<lparr>cells = [''leisure'' \<mapsto> Str ''park''],
      geometry = \<lparr>geom_type = ''Point'', wkt = ''POINT (0 0)''\<rparr>\<rparr>"

section \<open>Properties\<close>

subsection \<open>Parsing the configuration\<close>

text \<open>One specification: \<^verbatim>\<open>register_spec\<close>.\<close>

lemma register_spec_Inr:
  "register_spec k s (qt, gl) = Inr st' \<longleftrightarrow>
     (\<exists>v g vs. tag_value s = Some v \<and> geometry_spec s = Some g \<and> map_of qt k = Some vs \<and>
        st' = (if v \<in> set vs then qt else AList.update k (vs @ [v]) qt,
               AList.update (k @ ''='' @ v) g gl))"
  by (auto simp: register_spec_def split: option.splits)

lemma register_spec_keys:
  assumes "register_spec k s (qt, gl) = Inr (qt', gl')"
  shows "map fst qt' = map fst qt"
proof -
  from assms obtain v vs where vs: "map_of qt k = Some vs"
    and qt': "qt' = (if v \<in> set vs then qt else AList.update k (vs @ [v]) qt)"
    by (auto simp: register_spec_Inr)
  from vs have "k \<in> fst ` set qt" by (metis map_of_eq_None_iff option.distinct(1))
  then show ?thesis using qt' by (simp add: update_keys)
qed

lemma register_spec_vals:
  assumes "register_spec k s (qt, gl) = Inr (qt', gl')"
  shows "vals qt' k' = vals qt k' \<union> declared_values [(k, s)] k'"
proof -
  from assms obtain v vs where v: "tag_value s = Some v" and vs: "map_of qt k = Some vs"
    and qt': "qt' = (if v \<in> set vs then qt else AList.update k (vs @ [v]) qt)"
    by (auto simp: register_spec_Inr)
  show ?thesis using v vs qt'
    by (auto simp: vals_def declared_values_def update_conv' split: option.splits)
qed

lemma register_spec_lookup:
  assumes "register_spec k s (qt, gl) = Inr (qt', gl')"
  shows "map_of gl' = map_of gl ++ map_of (rev (entries [(k, s)]))"
  using assms
  by (auto simp: register_spec_Inr entries_def entry_def update_conv')


text \<open>The loop \<^verbatim>\<open>for_tag_values\<close>.\<close>

lemma for_tag_values_keys:
  "for_tag_values k specs (qt, gl) = Inr (qt', gl') \<Longrightarrow> map fst qt' = map fst qt"
proof (induction specs arbitrary: qt gl)
  case Nil
  then show ?case by simp
next
  case (Cons s specs)
  from Cons.prems obtain qt1 gl1 where
    1: "register_spec k s (qt, gl) = Inr (qt1, gl1)" and
    2: "for_tag_values k specs (qt1, gl1) = Inr (qt', gl')"
    by (auto split: sum.splits)
  show ?case using Cons.IH [OF 2] register_spec_keys [OF 1] by simp
qed

lemma declared_values_Cons:
  "declared_values (d # ds) k' = declared_values [d] k' \<union> declared_values ds k'"
  by (auto simp: declared_values_def)

lemma declared_values_append:
  "declared_values (ds @ es) k' = declared_values ds k' \<union> declared_values es k'"
  by (auto simp: declared_values_def)

lemma declared_values_Nil: "declared_values [] k' = {}"
  by (simp add: declared_values_def)

lemma entries_Cons: "entries (d # ds) = entries [d] @ entries ds"
  by (simp add: entries_def)

lemma entries_append: "entries (ds @ es) = entries ds @ entries es"
  by (simp add: entries_def)

lemma entries_Nil: "entries [] = []"
  by (simp add: entries_def)

lemma for_tag_values_vals:
  "for_tag_values k specs (qt, gl) = Inr (qt', gl') \<Longrightarrow>
     vals qt' k' = vals qt k' \<union> declared_values (map (Pair k) specs) k'"
proof (induction specs arbitrary: qt gl)
  case Nil
  then show ?case by (simp add: declared_values_Nil)
next
  case (Cons s specs)
  from Cons.prems obtain qt1 gl1 where
    1: "register_spec k s (qt, gl) = Inr (qt1, gl1)" and
    2: "for_tag_values k specs (qt1, gl1) = Inr (qt', gl')"
    by (auto split: sum.splits)
  have "declared_values (map (Pair k) (s # specs)) k' =
      declared_values [(k, s)] k' \<union> declared_values (map (Pair k) specs) k'"
    using declared_values_Cons [of "(k, s)" "map (Pair k) specs" k'] by simp
  then show ?case using Cons.IH [OF 2] register_spec_vals [OF 1, of k'] by auto
qed

lemma for_tag_values_lookup:
  "for_tag_values k specs (qt, gl) = Inr (qt', gl') \<Longrightarrow>
     map_of gl' = map_of gl ++ map_of (rev (entries (map (Pair k) specs)))"
proof (induction specs arbitrary: qt gl)
  case Nil
  then show ?case by (simp add: entries_Nil)
next
  case (Cons s specs)
  from Cons.prems obtain qt1 gl1 where
    1: "register_spec k s (qt, gl) = Inr (qt1, gl1)" and
    2: "for_tag_values k specs (qt1, gl1) = Inr (qt', gl')"
    by (auto split: sum.splits)
  have "entries (map (Pair k) (s # specs)) = entries [(k, s)] @ entries (map (Pair k) specs)"
    using entries_Cons [of "(k, s)" "map (Pair k) specs"] by simp
  then show ?case using Cons.IH [OF 2] register_spec_lookup [OF 1]
    by simp
qed

text \<open>The inner loop succeeds on complete specifications and fails on an incomplete one.\<close>

lemma for_tag_values_complete:
  assumes "map_of qt k \<noteq> None" and "list_all complete_spec specs"
  shows "\<exists>st'. for_tag_values k specs (qt, gl) = Inr st'"
  using assms
proof (induction specs arbitrary: qt gl)
  case Nil
  then show ?case by simp
next
  case (Cons s specs)
  from Cons.prems obtain v g vs where
    v: "tag_value s = Some v" "geometry_spec s = Some g" "map_of qt k = Some vs"
    by (auto simp: complete_spec_def)
  define qt1 where "qt1 = (if v \<in> set vs then qt else AList.update k (vs @ [v]) qt)"
  have 1: "register_spec k s (qt, gl) = Inr (qt1, AList.update (k @ ''='' @ v) g gl)"
    using v by (simp add: register_spec_Inr qt1_def)
  have "map_of qt1 k \<noteq> None" using v by (simp add: qt1_def update_conv')
  from Cons.IH [OF this] Cons.prems(2) show ?case using 1 by simp
qed




text \<open>A key seen for the first time: \<^verbatim>\<open>ensure_key\<close>.\<close>

lemma ensure_key_present: "map_of (ensure_key k qt) k \<noteq> None"
  by (auto simp: ensure_key_def map_add_def)

lemma ensure_key_vals: "vals (ensure_key k qt) k' = vals qt k'"
  by (auto simp: ensure_key_def vals_def map_add_def split: option.splits)

lemma ensure_key_keys:
  "map fst (ensure_key k qt) = (if k \<in> set (map fst qt) then map fst qt else map fst qt @ [k])"
  by (auto simp: ensure_key_def map_of_eq_None_iff)

lemma find_append:
  "find P (xs @ ys) = (case find P xs of None \<Rightarrow> find P ys | Some x \<Rightarrow> Some x)"
  by (induction xs) auto

lemma find_append_known:
  assumes "k \<in> set ks"
  shows "find P (ks @ k # rest) = find P (ks @ rest)"
proof (cases "find P ks")
  case None
  then have "\<not> P k" using assms by (auto simp: find_None_iff)
  then show ?thesis using None by (simp add: find_append)
next
  case (Some x)
  then show ?thesis by (simp add: find_append)
qed

lemma ensure_key_find:
  "find P (map fst (ensure_key k qt) @ rest) = find P (map fst qt @ k # rest)"
  by (simp add: ensure_key_keys find_append_known)

text \<open>The loop \<^verbatim>\<open>for_category_tags\<close>.\<close>

lemma item_declarations_Cons:
  "item_declarations ((k, specs) # items) = map (Pair k) specs @ item_declarations items"
  by (simp add: item_declarations_def)

lemma for_category_tags_find:
  "for_category_tags items (qt, gl) = Inr (qt', gl') \<Longrightarrow>
     find P (map fst qt' @ rest) = find P (map fst qt @ map fst items @ rest)"
proof (induction items arbitrary: qt gl)
  case Nil
  then show ?case by simp
next
  case (Cons item items)
  obtain k specs where item: "item = (k, specs)" by (cases item)
  from Cons.prems item obtain qt1 gl1 where
    1: "for_tag_values k specs (ensure_key k qt, gl) = Inr (qt1, gl1)" and
    2: "for_category_tags items (qt1, gl1) = Inr (qt', gl')"
    by (auto split: sum.splits)
  have "map fst qt1 = map fst (ensure_key k qt)" using for_tag_values_keys [OF 1] .
  then show ?case using Cons.IH [OF 2] item ensure_key_find [of P k qt "map fst items @ rest"]
    by simp
qed

lemma for_category_tags_vals:
  "for_category_tags items (qt, gl) = Inr (qt', gl') \<Longrightarrow>
     vals qt' k' = vals qt k' \<union> declared_values (item_declarations items) k'"
proof (induction items arbitrary: qt gl)
  case Nil
  then show ?case by (simp add: declared_values_Nil item_declarations_def)
next
  case (Cons item items)
  obtain k specs where item: "item = (k, specs)" by (cases item)
  from Cons.prems item obtain qt1 gl1 where
    1: "for_tag_values k specs (ensure_key k qt, gl) = Inr (qt1, gl1)" and
    2: "for_category_tags items (qt1, gl1) = Inr (qt', gl')"
    by (auto split: sum.splits)
  show ?case
    using Cons.IH [OF 2] for_tag_values_vals [OF 1, of k'] item
    by (auto simp: item_declarations_Cons declared_values_append ensure_key_vals)
qed

lemma for_category_tags_lookup:
  "for_category_tags items (qt, gl) = Inr (qt', gl') \<Longrightarrow>
     map_of gl' = map_of gl ++ map_of (rev (entries (item_declarations items)))"
proof (induction items arbitrary: qt gl)
  case Nil
  then show ?case by (simp add: entries_Nil item_declarations_def)
next
  case (Cons item items)
  obtain k specs where item: "item = (k, specs)" by (cases item)
  from Cons.prems item obtain qt1 gl1 where
    1: "for_tag_values k specs (ensure_key k qt, gl) = Inr (qt1, gl1)" and
    2: "for_category_tags items (qt1, gl1) = Inr (qt', gl')"
    by (auto split: sum.splits)
  show ?case
    using Cons.IH [OF 2] for_tag_values_lookup [OF 1] item
    by (simp add: item_declarations_Cons entries_append)
qed

lemma all_complete_append: "all_complete (ds @ es) \<longleftrightarrow> all_complete ds \<and> all_complete es"
  by (simp add: all_complete_def)

lemma all_complete_Pair: "all_complete (map (Pair k) specs) \<longleftrightarrow> list_all complete_spec specs"
  by (simp add: all_complete_def list_all_iff)

lemma for_category_tags_complete:
  "all_complete (item_declarations items) \<Longrightarrow> \<exists>st'. for_category_tags items st = Inr st'"
proof (induction items arbitrary: st)
  case Nil
  then show ?case by simp
next
  case (Cons item items)
  obtain k specs where item: "item = (k, specs)" by (cases item)
  from Cons.prems item have c: "list_all complete_spec specs" and
    rest: "all_complete (item_declarations items)"
    by (simp_all add: item_declarations_Cons all_complete_append all_complete_Pair)
  obtain st1 where "for_tag_values k specs (ensure_key k (fst st), snd st) = Inr st1"
    using for_tag_values_complete [OF ensure_key_present c] by blast
  then show ?case using Cons.IH [OF rest, of st1] item by simp
qed



text \<open>The loop \<^verbatim>\<open>for_categories\<close>.\<close>

lemma declarations_Cons:
  "declarations (c # cfg) = item_declarations (category_tags c) @ declarations cfg"
  by (simp add: declarations_def)

lemma declared_keys_Cons:
  "declared_keys (c # cfg) = map fst (category_tags c) @ declared_keys cfg"
  by (simp add: declared_keys_def)

lemma for_categories_find:
  "for_categories cfg (qt, gl) = Inr (qt', gl') \<Longrightarrow>
     find P (map fst qt') = find P (map fst qt @ declared_keys cfg)"
proof (induction cfg arbitrary: qt gl)
  case Nil
  then show ?case by (simp add: declared_keys_def)
next
  case (Cons c cfg)
  from Cons.prems obtain qt1 gl1 where
    1: "for_category_tags (category_tags c) (qt, gl) = Inr (qt1, gl1)" and
    2: "for_categories cfg (qt1, gl1) = Inr (qt', gl')"
    by (auto split: sum.splits)
  show ?case
    using Cons.IH [OF 2] for_category_tags_find [OF 1, of P "declared_keys cfg"]
    by (simp add: declared_keys_Cons)
qed

lemma for_categories_vals:
  "for_categories cfg (qt, gl) = Inr (qt', gl') \<Longrightarrow>
     vals qt' k' = vals qt k' \<union> declared_values (declarations cfg) k'"
proof (induction cfg arbitrary: qt gl)
  case Nil
  then show ?case by (simp add: declarations_def declared_values_Nil)
next
  case (Cons c cfg)
  from Cons.prems obtain qt1 gl1 where
    1: "for_category_tags (category_tags c) (qt, gl) = Inr (qt1, gl1)" and
    2: "for_categories cfg (qt1, gl1) = Inr (qt', gl')"
    by (auto split: sum.splits)
  show ?case
    using Cons.IH [OF 2] for_category_tags_vals [OF 1, of k']
    by (auto simp: declarations_Cons declared_values_append)
qed

lemma for_categories_lookup:
  "for_categories cfg (qt, gl) = Inr (qt', gl') \<Longrightarrow>
     map_of gl' = map_of gl ++ map_of (rev (entries (declarations cfg)))"
proof (induction cfg arbitrary: qt gl)
  case Nil
  then show ?case by (simp add: declarations_def entries_Nil)
next
  case (Cons c cfg)
  from Cons.prems obtain qt1 gl1 where
    1: "for_category_tags (category_tags c) (qt, gl) = Inr (qt1, gl1)" and
    2: "for_categories cfg (qt1, gl1) = Inr (qt', gl')"
    by (auto split: sum.splits)
  show ?case
    using Cons.IH [OF 2] for_category_tags_lookup [OF 1]
    by (simp add: declarations_Cons entries_append)
qed

lemma for_categories_complete:
  "all_complete (declarations cfg) \<Longrightarrow> \<exists>st'. for_categories cfg st = Inr st'"
proof (induction cfg arbitrary: st)
  case Nil
  then show ?case by simp
next
  case (Cons c cfg)
  from Cons.prems have c: "all_complete (item_declarations (category_tags c))" and
    rest: "all_complete (declarations cfg)"
    by (simp_all add: declarations_Cons all_complete_append)
  obtain st1 where "for_category_tags (category_tags c) st = Inr st1"
    using for_category_tags_complete [OF c] by blast
  then show ?case using Cons.IH [OF rest, of st1] by simp
qed


text \<open>The whole configuration: \<^verbatim>\<open>parse_tags\<close>.\<close>

lemma parse_tags_find:
  "parse_tags cfg = Inr (qt, gl) \<Longrightarrow> find P (map fst qt) = find P (declared_keys cfg)"
  using for_categories_find [of cfg "[]" "[]" qt gl P] by (simp add: parse_tags_def)

lemma parse_tags_vals:
  "parse_tags cfg = Inr (qt, gl) \<Longrightarrow> vals qt k = declared_values (declarations cfg) k"
  using for_categories_vals [of cfg "[]" "[]" qt gl k] by (simp add: parse_tags_def vals_def)

lemma parse_tags_lookup:
  "parse_tags cfg = Inr (qt, gl) \<Longrightarrow> map_of gl = map_of (rev (entries (declarations cfg)))"
  using for_categories_lookup [of cfg "[]" "[]" qt gl] by (simp add: parse_tags_def)

lemma parse_tags_complete:
  "all_complete (declarations cfg) \<Longrightarrow> \<exists>qt gl. parse_tags cfg = Inr (qt, gl)"
  using for_categories_complete [of cfg "([], [])"] by (auto simp: parse_tags_def)


lemma scan_keys_find:
  "scan_keys ks r =
     Inr (case find (\<lambda>k. cell_value r k \<noteq> None) ks of
            None \<Rightarrow> ''unknown''
          | Some k \<Rightarrow> k @ ''='' @ the (cell_value r k))"
proof (induction ks)
  case Nil
  then show ?case by simp
next
  case (Cons k ks)
  show ?case
  proof (cases "k = ''geometry''")
    case True
    then show ?thesis by (simp add: cell_value_def row_getitem_def in_index_def)
  next
    case False
    show ?thesis
    proof (cases "cells r k")
      case None
      then show ?thesis using Cons False by (simp add: cell_value_def in_index_def)
    next
      case (Some c)
      then show ?thesis using Cons False
        by (cases c) (simp_all add: cell_value_def row_getitem_def in_index_def)
    qed
  qed
qed

lemma find_first:
  assumes "\<forall>x\<in>set pre. \<not> P x" and "P k"
  shows "find P (pre @ k # post) = Some k"
proof -
  have "find P pre = None" using assms(1) by (simp add: find_None_iff)
  then show ?thesis using assms(2) by (simp add: find_append)
qed

text \<open>
  C2: the classifier scans the query keys in declaration order. The first declared key that
  the feature has with a non-null value gives the tag \<^verbatim>\<open>key=value\<close>, whatever
  keys follow it; when no declared key has a value on the feature, the tag is
  \<^verbatim>\<open>unknown\<close>. The keys of a feature are the labels of its row, the label
  \<^verbatim>\<open>geometry\<close> among them, whose value is the shape.
\<close>

theorem get_osm_tag_first_match:
  assumes "parse_tags cfg = Inr (qt, gl)"
  shows "(\<forall>pre k post v.
            declared_keys cfg = pre @ k # post \<and>
            (\<forall>k'\<in>set pre. cell_value r k' = None) \<and> cell_value r k = Some v
              \<longrightarrow> get_osm_tag qt r = Inr (k @ ''='' @ v)) \<and>
         ((\<forall>k\<in>set (declared_keys cfg). cell_value r k = None)
              \<longrightarrow> get_osm_tag qt r = Inr ''unknown'')"
proof -
  let ?P = "\<lambda>k. cell_value r k \<noteq> None"
  have tag: "get_osm_tag qt r =
     Inr (case find ?P (declared_keys cfg) of
            None \<Rightarrow> ''unknown''
          | Some k \<Rightarrow> k @ ''='' @ the (cell_value r k))"
    using parse_tags_find [OF assms, of ?P] by (simp add: get_osm_tag_def scan_keys_find)
  show ?thesis
  proof (intro conjI allI impI)
    fix pre k post v
    assume a: "declared_keys cfg = pre @ k # post \<and>
            (\<forall>k'\<in>set pre. cell_value r k' = None) \<and> cell_value r k = Some v"
    then have "find ?P (declared_keys cfg) = Some k"
      using find_first [of pre ?P k post] by simp
    then show "get_osm_tag qt r = Inr (k @ ''='' @ v)" using tag a by simp
  next
    assume "\<forall>k\<in>set (declared_keys cfg). cell_value r k = None"
    then have "find ?P (declared_keys cfg) = None" by (simp add: find_None_iff)
    then show "get_osm_tag qt r = Inr ''unknown''" using tag by simp
  qed
qed




lemma map_of_rev_entries:
  assumes "t \<notin> fst ` set later"
  shows "map_of (rev (earlier @ (t, g) # later)) t = Some g"
proof -
  have "map_of (rev later) t = None" using assms by (simp add: map_of_eq_None_iff)
  then show ?thesis by (simp add: map_add_def)
qed

lemma entries_iff:
  "(t, g) \<in> set (entries ds) \<longleftrightarrow>
     (\<exists>k s v. (k, s) \<in> set ds \<and> tag_value s = Some v \<and> geometry_spec s = Some g \<and>
        t = k @ ''='' @ v)"
proof -
  have one: "(t, g) \<in> set (entry d) \<longleftrightarrow>
      (\<exists>v. tag_value (snd d) = Some v \<and> geometry_spec (snd d) = Some g \<and> t = fst d @ ''='' @ v)"
    for d
    by (auto simp: entry_def split: option.splits)
  have "(t, g) \<in> set (entries ds) \<longleftrightarrow> (\<exists>d\<in>set ds. (t, g) \<in> set (entry d))"
    by (auto simp: entries_def)
  also have "\<dots> \<longleftrightarrow> (\<exists>k s v. (k, s) \<in> set ds \<and> tag_value s = Some v \<and>
      geometry_spec s = Some g \<and> t = k @ ''='' @ v)"
    unfolding one by force
  finally show ?thesis .
qed

text \<open>
  C5: when every specification is complete, parsing succeeds, and the geometry lookup holds
  for \<^verbatim>\<open>key=value\<close> the constraint of the declaration of that entry after which
  no declaration writes it again, whatever was declared for it earlier.
\<close>

theorem later_declaration_wins:
  assumes "list_all (\<lambda>d. tag_value (snd d) \<noteq> None \<and> geometry_spec (snd d) \<noteq> None)
             (declarations cfg)"
    and "declarations cfg = earlier @ (k, s) # later"
    and "tag_value s = Some v" and "geometry_spec s = Some g"
    and "\<forall>d\<in>set later. \<forall>v'. tag_value (snd d) = Some v' \<longrightarrow> fst d @ ''='' @ v' \<noteq> k @ ''='' @ v"
  shows "\<exists>qt gl. parse_tags cfg = Inr (qt, gl) \<and> map_of gl (k @ ''='' @ v) = Some g"
proof -
  have "all_complete (declarations cfg)"
    using assms(1) by (simp add: all_complete_def complete_spec_def)
  then obtain qt gl where p: "parse_tags cfg = Inr (qt, gl)"
    using parse_tags_complete by blast
  have e: "entries (declarations cfg) = entries earlier @ (k @ ''='' @ v, g) # entries later"
    using assms(2,3,4) by (simp add: entries_append entries_Cons [of "(k, s)"] entries_def entry_def)
  have "k @ ''='' @ v \<notin> fst ` set (entries later)"
    using assms(5) by (fastforce simp: entries_iff)
  then have "map_of gl (k @ ''='' @ v) = Some g"
    using parse_tags_lookup [OF p] e map_of_rev_entries by simp
  then show ?thesis using p by blast
qed

text \<open>C5 on two categories that both declare \<^verbatim>\<open>park=yes\<close>.\<close>

theorem later_declaration_wins_witness:
  "\<exists>qt gl. parse_tags park_twice_cfg = Inr (qt, gl) \<and>
      map_of gl ''park=yes'' = Some (GList [''point'', ''area''])"
  using later_declaration_wins [of park_twice_cfg
      "[(''park'', \<lparr>tag_value = Some ''yes'', geometry_spec = Some (GStr ''area'')\<rparr>)]"
      "''park''" "\<lparr>tag_value = Some ''yes'', geometry_spec = Some (GList [''point'', ''area''])\<rparr>"
      "[]" "''yes''" "GList [''point'', ''area'']"]
  by (simp add: park_twice_cfg_def declarations_def item_declarations_def category_tags_def)

lemma parse_cycleway_cfg:
  "parse_tags cycleway_cfg =
     Inr ([(''highway'', [''cycleway'']), (''amenity'', [''bench''])],
          [(''highway=cycleway'', GList [''line'']), (''amenity=bench'', GStr ''any'')])"
  by (simp add: cycleway_cfg_def category_tags_def parse_tags_def ensure_key_def
      register_spec_def)

lemma parse_geometry_key_cfg:
  "parse_tags geometry_key_cfg =
     Inr ([(''geometry'', [''yes'']), (''leisure'', [''park''])],
          [(''geometry=yes'', GStr ''any''), (''leisure=park'', GStr ''any'')])"
  by (simp add: geometry_key_cfg_def category_tags_def parse_tags_def ensure_key_def
      register_spec_def)

text \<open>
  C2 on a feature tagged both \<^verbatim>\<open>highway=cycleway\<close> and
  \<^verbatim>\<open>amenity=bench\<close>, on a feature without a tag of the taxonomy, and on a park
  under a taxonomy whose first key is \<^verbatim>\<open>geometry\<close>.
\<close>

theorem get_osm_tag_first_match_witness:
  "get_osm_tag [(''highway'', [''cycleway'']), (''amenity'', [''bench''])] cycleway_row =
     Inr ''highway=cycleway'' \<and>
   get_osm_tag [(''highway'', [''cycleway'']), (''amenity'', [''bench''])] untagged_row =
     Inr ''unknown'' \<and>
   get_osm_tag [(''geometry'', [''yes'']), (''leisure'', [''park''])] park_point_row =
     Inr ''geometry=POINT (0 0)''"
proof -
  have keys: "declared_keys cycleway_cfg = [] @ ''highway'' # [''amenity'']"
    by (simp add: declared_keys_def cycleway_cfg_def category_tags_def)
  have v: "cell_value cycleway_row ''highway'' = Some ''cycleway''"
    by (simp add: cell_value_def cycleway_row_def)
  have u: "\<forall>k\<in>set (declared_keys cycleway_cfg). cell_value untagged_row k = None"
    by (simp add: declared_keys_def cycleway_cfg_def category_tags_def cell_value_def
        untagged_row_def)
  have gkeys: "declared_keys geometry_key_cfg = [] @ ''geometry'' # [''leisure'']"
    by (simp add: declared_keys_def geometry_key_cfg_def category_tags_def)
  have gv: "cell_value park_point_row ''geometry'' = Some ''POINT (0 0)''"
    by (simp add: cell_value_def park_point_row_def)
  from get_osm_tag_first_match [OF parse_cycleway_cfg, of cycleway_row] keys v
  have "get_osm_tag [(''highway'', [''cycleway'']), (''amenity'', [''bench''])] cycleway_row =
     Inr (''highway'' @ ''='' @ ''cycleway'')"
    by (metis empty_iff list.set(1))
  moreover from get_osm_tag_first_match [OF parse_cycleway_cfg, of untagged_row] u
  have "get_osm_tag [(''highway'', [''cycleway'']), (''amenity'', [''bench''])] untagged_row =
     Inr ''unknown''"
    by blast
  moreover from get_osm_tag_first_match [OF parse_geometry_key_cfg, of park_point_row] gkeys gv
  have "get_osm_tag [(''geometry'', [''yes'']), (''leisure'', [''park''])] park_point_row =
     Inr (''geometry'' @ ''='' @ ''POINT (0 0)'')"
    by (metis empty_iff list.set(1))
  ultimately show ?thesis by simp
qed

subsection \<open>Classification and the filter\<close>

lemma get_osm_tag_eq: "get_osm_tag qt r = Inr (canonical_tag qt r)"
  by (simp add: get_osm_tag_def scan_keys_find canonical_tag_def)

lemma apply_get_osm_tag_eq:
  "apply_get_osm_tag qt rs = Inr (map (\<lambda>r. Str (canonical_tag qt r)) rs)"
  by (induction rs) (simp_all add: get_osm_tag_eq)

lemma zip_map_same: "map (\<lambda>(r, v). f r v) (zip rs (map g rs)) = map (\<lambda>r. f r (g r)) rs"
  by (induction rs) simp_all

lemma assign_osm_tag_eq:
  "assign_osm_tag qt df =
     Inr \<lparr>columns = (if ''osm_tag'' \<in> set (columns df) then columns df
                      else columns df @ [''osm_tag'']),
          rows = map (classify_row qt) (rows df)\<rparr>"
  unfolding assign_osm_tag_def apply_get_osm_tag_eq set_column_def classify_row_def
  by (simp add: zip_map_same)

lemma classify_row_osm_tag: "cells (classify_row qt r) ''osm_tag'' = Some (Str (canonical_tag qt r))"
  by (simp add: classify_row_def)

text \<open>One row of the filter, then all rows.\<close>

lemma should_keep_feature_cases:
  assumes "cells r ''osm_tag'' = Some c"
  shows "should_keep_feature gl r d = Inr (True, d) \<and> keeps gl r \<and> lookup_cell gl c \<noteq> None \<or>
         should_keep_feature gl r d = Inr (False, d\<lparr>unknown_tags := insert c (unknown_tags d)\<rparr>) \<and>
           \<not> keeps gl r \<or>
         should_keep_feature gl r d =
           Inr (False, d\<lparr>excluded_by_geometry := insert (mismatch_text c r) (excluded_by_geometry d)\<rparr>) \<and>
           \<not> keeps gl r"
  using assms
  by (auto simp: should_keep_feature_def row_getitem_def keeps_def mismatch_text_def Let_def
      split: option.splits)

lemma should_keep_feature_step:
  assumes "cells r ''osm_tag'' = Some c"
  shows "\<exists>d1. should_keep_feature gl r d = Inr (keeps gl r, d1) \<and>
           unknown_tags d \<subseteq> unknown_tags d1 \<and>
           excluded_by_geometry d \<subseteq> excluded_by_geometry d1 \<and>
           (\<not> keeps gl r \<longrightarrow> c \<in> unknown_tags d1 \<or> mismatch_text c r \<in> excluded_by_geometry d1) \<and>
           (keeps gl r \<longrightarrow> d1 = d)"
proof -
  consider
    (kept) "should_keep_feature gl r d = Inr (True, d)" "keeps gl r"
  | (unknown) "should_keep_feature gl r d = Inr (False, d\<lparr>unknown_tags := insert c (unknown_tags d)\<rparr>)"
      "\<not> keeps gl r"
  | (mismatch) "should_keep_feature gl r d =
      Inr (False, d\<lparr>excluded_by_geometry := insert (mismatch_text c r) (excluded_by_geometry d)\<rparr>)"
      "\<not> keeps gl r"
    using should_keep_feature_cases [OF assms, of gl d] by blast
  then show ?thesis
  proof cases
    case kept
    then show ?thesis by (intro exI [of _ d]) simp
  next
    case unknown
    then show ?thesis
      by (intro exI [of _ "d\<lparr>unknown_tags := insert c (unknown_tags d)\<rparr>"]) auto
  next
    case mismatch
    then show ?thesis
      by (intro exI [of _ "d\<lparr>excluded_by_geometry :=
          insert (mismatch_text c r) (excluded_by_geometry d)\<rparr>"]) auto
  qed
qed

lemma apply_should_keep_eq:
  assumes "\<forall>r\<in>set rs. cells r ''osm_tag'' \<noteq> None"
  shows "\<exists>d'. apply_should_keep gl rs d = Inr (map (keeps gl) rs, d') \<and>
           unknown_tags d \<subseteq> unknown_tags d' \<and>
           excluded_by_geometry d \<subseteq> excluded_by_geometry d' \<and>
           (\<forall>r\<in>set rs. \<forall>c. cells r ''osm_tag'' = Some c \<longrightarrow> \<not> keeps gl r \<longrightarrow>
              c \<in> unknown_tags d' \<or> mismatch_text c r \<in> excluded_by_geometry d') \<and>
           ((\<forall>r\<in>set rs. keeps gl r) \<longrightarrow> d' = d)"
  using assms
proof (induction rs arbitrary: d)
  case Nil
  then show ?case by simp
next
  case (Cons r rs)
  then obtain c where c: "cells r ''osm_tag'' = Some c" by auto
  obtain d1 where 1: "should_keep_feature gl r d = Inr (keeps gl r, d1)"
    and m1: "unknown_tags d \<subseteq> unknown_tags d1" "excluded_by_geometry d \<subseteq> excluded_by_geometry d1"
    and e1: "\<not> keeps gl r \<longrightarrow> c \<in> unknown_tags d1 \<or> mismatch_text c r \<in> excluded_by_geometry d1"
    and k1: "keeps gl r \<longrightarrow> d1 = d"
    using should_keep_feature_step [OF c, of gl d] by blast
  from Cons.prems have "\<forall>r\<in>set rs. cells r ''osm_tag'' \<noteq> None" by simp
  from Cons.IH [OF this, of d1] obtain d' where
    2: "apply_should_keep gl rs d1 = Inr (map (keeps gl) rs, d')" and
    m2: "unknown_tags d1 \<subseteq> unknown_tags d'" "excluded_by_geometry d1 \<subseteq> excluded_by_geometry d'" and
    e2: "\<forall>r\<in>set rs. \<forall>c. cells r ''osm_tag'' = Some c \<longrightarrow> \<not> keeps gl r \<longrightarrow>
              c \<in> unknown_tags d' \<or> mismatch_text c r \<in> excluded_by_geometry d'" and
    k2: "(\<forall>r\<in>set rs. keeps gl r) \<longrightarrow> d' = d1"
    by blast
  have "apply_should_keep gl (r # rs) d = Inr (map (keeps gl) (r # rs), d')"
    using 1 2 by simp
  moreover have "unknown_tags d \<subseteq> unknown_tags d'" "excluded_by_geometry d \<subseteq> excluded_by_geometry d'"
    using m1 m2 by auto
  moreover have "\<forall>r'\<in>set (r # rs). \<forall>c. cells r' ''osm_tag'' = Some c \<longrightarrow> \<not> keeps gl r' \<longrightarrow>
              c \<in> unknown_tags d' \<or> mismatch_text c r' \<in> excluded_by_geometry d'"
    using e1 e2 m2 c by auto
  moreover have "(\<forall>r'\<in>set (r # rs). keeps gl r') \<longrightarrow> d' = d"
    using k1 k2 by simp
  ultimately show ?case by blast
qed

lemma filter_zip_map: "map fst (filter snd (zip rs (map P rs))) = filter P rs"
  by (induction rs) simp_all

lemma filter_features_eq:
  assumes "\<forall>r\<in>set (rows df). cells r ''osm_tag'' \<noteq> None"
  shows "\<exists>d. filter_features gl df = Inr (df\<lparr>rows := filter (keeps gl) (rows df)\<rparr>, d) \<and>
           (\<forall>r\<in>set (rows df). \<forall>c. cells r ''osm_tag'' = Some c \<longrightarrow> \<not> keeps gl r \<longrightarrow>
              c \<in> unknown_tags d \<or> mismatch_text c r \<in> excluded_by_geometry d) \<and>
           ((\<forall>r\<in>set (rows df). keeps gl r) \<longrightarrow> d = no_diagnostics)"
proof -
  from apply_should_keep_eq [OF assms, of gl no_diagnostics] obtain d where
    "apply_should_keep gl (rows df) no_diagnostics = Inr (map (keeps gl) (rows df), d)" and
    "\<forall>r\<in>set (rows df). \<forall>c. cells r ''osm_tag'' = Some c \<longrightarrow> \<not> keeps gl r \<longrightarrow>
              c \<in> unknown_tags d \<or> mismatch_text c r \<in> excluded_by_geometry d" and
    "(\<forall>r\<in>set (rows df). keeps gl r) \<longrightarrow> d = no_diagnostics"
    by blast
  then show ?thesis by (simp add: filter_features_def filter_zip_map)
qed

lemma classify_and_filter_eq:
  "\<exists>d. classify_and_filter qt gl df =
          Inr ((classified_frame qt df)\<lparr>rows := filter (keeps gl) (map (classify_row qt) (rows df))\<rparr>, d) \<and>
        (\<forall>r\<in>set (rows df). \<not> keeps gl (classify_row qt r) \<longrightarrow>
            Str (canonical_tag qt r) \<in> unknown_tags d \<or>
            mismatch_text (Str (canonical_tag qt r)) r \<in> excluded_by_geometry d) \<and>
        ((\<forall>r\<in>set (rows df). keeps gl (classify_row qt r)) \<longrightarrow> d = no_diagnostics)"
proof -
  have tagged: "\<forall>r\<in>set (rows (classified_frame qt df)). cells r ''osm_tag'' \<noteq> None"
    by (auto simp: classified_frame_def classify_row_osm_tag)
  from filter_features_eq [OF tagged, of gl] obtain d where
    f: "filter_features gl (classified_frame qt df) =
        Inr ((classified_frame qt df)\<lparr>rows := filter (keeps gl) (rows (classified_frame qt df))\<rparr>, d)" and
    e: "\<forall>r\<in>set (rows (classified_frame qt df)). \<forall>c. cells r ''osm_tag'' = Some c \<longrightarrow> \<not> keeps gl r \<longrightarrow>
              c \<in> unknown_tags d \<or> mismatch_text c r \<in> excluded_by_geometry d" and
    k: "(\<forall>r\<in>set (rows (classified_frame qt df)). keeps gl r) \<longrightarrow> d = no_diagnostics"
    by blast
  have "classify_and_filter qt gl df =
          Inr ((classified_frame qt df)\<lparr>rows := filter (keeps gl) (map (classify_row qt) (rows df))\<rparr>, d)"
    using f by (simp add: classify_and_filter_def assign_osm_tag_eq classified_frame_def)
  moreover have "\<forall>r\<in>set (rows df). \<not> keeps gl (classify_row qt r) \<longrightarrow>
            Str (canonical_tag qt r) \<in> unknown_tags d \<or>
            mismatch_text (Str (canonical_tag qt r)) r \<in> excluded_by_geometry d"
  proof (intro ballI impI)
    fix r assume r: "r \<in> set (rows df)" and n: "\<not> keeps gl (classify_row qt r)"
    have "classify_row qt r \<in> set (rows (classified_frame qt df))"
      using r by (simp add: classified_frame_def)
    from e [rule_format, OF this classify_row_osm_tag n]
    show "Str (canonical_tag qt r) \<in> unknown_tags d \<or>
            mismatch_text (Str (canonical_tag qt r)) r \<in> excluded_by_geometry d"
      by (simp add: mismatch_text_def classify_row_def)
  qed
  moreover have "(\<forall>r\<in>set (rows df). keeps gl (classify_row qt r)) \<longrightarrow> d = no_diagnostics"
    using k by (simp add: classified_frame_def)
  ultimately show ?thesis by blast
qed

lemma mapping_get_atomic_kind: "gt \<in> set (mapping_get a) \<longleftrightarrow> spec_atomic_kind gt = Some a"
  by (auto simp: mapping_get_def geometry_type_mapping_def spec_atomic_kind_def split: if_splits)

lemma matches_allowed_iff: "matches_allowed gt l \<longleftrightarrow> (\<exists>a\<in>set l. gt \<in> set (mapping_get a))"
  by (induction l) auto

lemma matches_allowed_kind:
  "matches_allowed gt l \<longleftrightarrow> (case spec_atomic_kind gt of None \<Rightarrow> False | Some k \<Rightarrow> k \<in> set l)"
  by (auto simp: matches_allowed_iff mapping_get_atomic_kind split: option.splits)

text \<open>
  C1: on a classified feature, \<^verbatim>\<open>should_keep_feature\<close> decides as the
  validator of the specification does. A tag that is \<^verbatim>\<open>unknown\<close> or not in
  the lookup is rejected and recorded among the unknown tags; with the constraint
  \<^verbatim>\<open>any\<close> the feature is kept; otherwise it is kept if and only if the atomic
  kind of its shape (none for a shape outside the fixed mapping) is in the allowed set, and
  a feature rejected there is recorded as a geometry mismatch with its tag and shape.
\<close>

theorem should_keep_feature_decision:
  assumes "cells r ''osm_tag'' = Some (Str t)"
  shows "should_keep_feature gl r d =
     Inr (case spec_accept gl t (geom_type (geometry r)) of
            Keep \<Rightarrow> (True, d)
          | Reject_unrecognizedTag \<Rightarrow> (False, d\<lparr>unknown_tags := insert (Str t) (unknown_tags d)\<rparr>)
          | Reject_geometryMismatch \<Rightarrow>
              (False, d\<lparr>excluded_by_geometry :=
                 insert (t @ '' (geometry: '' @ geom_type (geometry r) @ '')'')
                   (excluded_by_geometry d)\<rparr>))"
proof (cases "t = ''unknown'' \<or> map_of gl t = None")
  case True
  then show ?thesis using assms
    by (auto simp: should_keep_feature_def row_getitem_def spec_accept_def)
next
  case False
  then obtain c where c: "map_of gl t = Some c" and t: "t \<noteq> ''unknown''" by auto
  show ?thesis
  proof (cases c)
    case (GStr s)
    then show ?thesis using assms c t
      by (simp add: should_keep_feature_def row_getitem_def spec_accept_def Let_def
          matches_allowed_kind split: option.splits)
  next
    case (GList l)
    then show ?thesis using assms c t
      by (simp add: should_keep_feature_def row_getitem_def spec_accept_def Let_def
          matches_allowed_kind split: option.splits)
  qed
qed

text \<open>C1 on a park drawn as a point, where the taxonomy wants an area.\<close>

theorem should_keep_feature_decision_witness:
  "cells (park_row ''Point'') ''osm_tag'' = Some (Str ''leisure=park'') \<and>
   should_keep_feature [(''leisure=park'', GStr ''area'')] (park_row ''Point'') no_diagnostics =
     Inr (False, \<lparr>unknown_tags = {},
                  excluded_by_geometry = {''leisure=park (geometry: Point)''}\<rparr>)"
  using should_keep_feature_decision [of "park_row ''Point''" "''leisure=park''"
      "[(''leisure=park'', GStr ''area'')]" no_diagnostics]
  by (simp add: park_row_def spec_accept_def spec_atomic_kind_def no_diagnostics_def)

subsection \<open>Evaluating the examples\<close>

lemmas run_defs =
  run_summary_def extract_selected_tags_from_osm_complete_def parse_tags_def category_tags_def
  ensure_key_def register_spec_def classify_and_filter_def assign_osm_tag_def
  get_osm_tag_def in_index_def row_getitem_def set_column_def filter_features_def
  should_keep_feature_def mapping_get_def geometry_type_mapping_def no_diagnostics_def
  project_result_def ensure_name_def select_columns_def

lemma parse_park_cfg:
  "parse_tags park_cfg = Inr ([(''leisure'', [''park''])], [(''leisure=park'', GStr ''area'')])"
  by (simp add: park_cfg_def category_tags_def parse_tags_def ensure_key_def register_spec_def)

lemma wf_three_features: "wf_frame three_features_gdf"
  by (auto simp: wf_frame_def three_features_gdf_def)

lemma park_run:
  "run_summary (extract_selected_tags_from_osm_complete park_cfg three_features_gdf) =
     Inr ([(Some Null, Some (Str ''leisure=park''),
            \<lparr>geom_type = ''Polygon'', wkt = ''POLYGON ((0 0, 1 0, 1 1, 0 0))''\<rparr>)],
          {Str ''unknown''}, {''leisure=park (geometry: Point)''})"
  by (simp add: run_defs park_cfg_def three_features_gdf_def)

subsection \<open>No exception in classification and filter\<close>

text \<open>The entry that a rejected row leaves in the two sets.\<close>

lemma should_keep_feature_entry:
  assumes "cells r ''osm_tag'' = Some c"
  shows "\<exists>d1. should_keep_feature gl r d = Inr (keeps gl r, d1) \<and>
           unknown_tags d \<subseteq> unknown_tags d1 \<and>
           excluded_by_geometry d \<subseteq> excluded_by_geometry d1 \<and>
           (unrecognized gl c \<longrightarrow> \<not> keeps gl r \<and> c \<in> unknown_tags d1) \<and>
           (\<not> unrecognized gl c \<longrightarrow> \<not> keeps gl r \<longrightarrow>
              mismatch_text c r \<in> excluded_by_geometry d1)"
proof (cases "unrecognized gl c")
  case True
  then have "should_keep_feature gl r d' =
      Inr (False, d'\<lparr>unknown_tags := insert c (unknown_tags d')\<rparr>)" for d'
    using assms by (auto simp: should_keep_feature_def row_getitem_def unrecognized_def)
  then show ?thesis using True
    by (intro exI [of _ "d\<lparr>unknown_tags := insert c (unknown_tags d)\<rparr>"])
      (auto simp: keeps_def)
next
  case False
  then obtain g where g: "lookup_cell gl c = Some g" and u: "c \<noteq> Str ''unknown''"
    by (auto simp: unrecognized_def)
  show ?thesis
  proof (cases "keeps gl r")
    case True
    then have "should_keep_feature gl r d = Inr (True, d)"
      using assms g u
      by (auto simp: should_keep_feature_def row_getitem_def keeps_def Let_def split: if_splits)
    then show ?thesis using True False by (intro exI [of _ d]) simp
  next
    case no: False
    then have "should_keep_feature gl r d =
      Inr (False, d\<lparr>excluded_by_geometry := insert (mismatch_text c r) (excluded_by_geometry d)\<rparr>)"
      using assms g u
      by (auto simp: should_keep_feature_def row_getitem_def keeps_def Let_def mismatch_text_def
          split: if_splits)
    then show ?thesis using no False
      by (intro exI [of _ "d\<lparr>excluded_by_geometry :=
          insert (mismatch_text c r) (excluded_by_geometry d)\<rparr>"]) auto
  qed
qed

lemma apply_should_keep_entries:
  assumes "\<forall>r\<in>set rs. cells r ''osm_tag'' \<noteq> None"
    and "apply_should_keep gl rs d = Inr (flags, d')"
  shows "unknown_tags d \<subseteq> unknown_tags d' \<and>
         excluded_by_geometry d \<subseteq> excluded_by_geometry d' \<and>
         (\<forall>r\<in>set rs. \<forall>c. cells r ''osm_tag'' = Some c \<longrightarrow>
            (unrecognized gl c \<longrightarrow> \<not> keeps gl r \<and> c \<in> unknown_tags d') \<and>
            (\<not> unrecognized gl c \<longrightarrow> \<not> keeps gl r \<longrightarrow>
               mismatch_text c r \<in> excluded_by_geometry d'))"
  using assms
proof (induction rs arbitrary: d flags)
  case Nil
  then show ?case by simp
next
  case (Cons r rs)
  then obtain c where c: "cells r ''osm_tag'' = Some c" by auto
  from should_keep_feature_entry [OF c, of gl d] obtain d1 where
    1: "should_keep_feature gl r d = Inr (keeps gl r, d1)" and
    m1: "unknown_tags d \<subseteq> unknown_tags d1" "excluded_by_geometry d \<subseteq> excluded_by_geometry d1" and
    u1: "unrecognized gl c \<longrightarrow> \<not> keeps gl r \<and> c \<in> unknown_tags d1" and
    e1: "\<not> unrecognized gl c \<longrightarrow> \<not> keeps gl r \<longrightarrow> mismatch_text c r \<in> excluded_by_geometry d1"
    by (elim exE conjE)
  from Cons.prems(2) 1 obtain flags' where
    2: "apply_should_keep gl rs d1 = Inr (flags', d')"
    by (auto split: sum.splits)
  from Cons.prems(1) have "\<forall>r\<in>set rs. cells r ''osm_tag'' \<noteq> None" by simp
  note ih = Cons.IH [OF this 2]
  have "unknown_tags d \<subseteq> unknown_tags d'" "excluded_by_geometry d \<subseteq> excluded_by_geometry d'"
    using m1 ih by auto
  moreover have "\<forall>r'\<in>set (r # rs). \<forall>c. cells r' ''osm_tag'' = Some c \<longrightarrow>
            (unrecognized gl c \<longrightarrow> \<not> keeps gl r' \<and> c \<in> unknown_tags d') \<and>
            (\<not> unrecognized gl c \<longrightarrow> \<not> keeps gl r' \<longrightarrow>
               mismatch_text c r' \<in> excluded_by_geometry d')"
    using u1 e1 ih c by auto
  ultimately show ?case by blast
qed

lemma classify_and_filter_entries:
  assumes "classify_and_filter qt gl df = Inr (kept, d)" and "r \<in> set (rows df)"
  shows "(unrecognized gl (Str (canonical_tag qt r)) \<longrightarrow>
            \<not> keeps gl (classify_row qt r) \<and> Str (canonical_tag qt r) \<in> unknown_tags d) \<and>
         (\<not> unrecognized gl (Str (canonical_tag qt r)) \<longrightarrow> \<not> keeps gl (classify_row qt r) \<longrightarrow>
            mismatch_text (Str (canonical_tag qt r)) r \<in> excluded_by_geometry d)"
proof -
  let ?rows = "map (classify_row qt) (rows df)"
  have tagged: "\<forall>r\<in>set ?rows. cells r ''osm_tag'' \<noteq> None"
    by (auto simp: classify_row_osm_tag)
  from assms(1) obtain flags where
    a: "apply_should_keep gl ?rows no_diagnostics = Inr (flags, d)"
    by (auto simp: classify_and_filter_def assign_osm_tag_eq filter_features_def
        split: sum.splits)
  have "classify_row qt r \<in> set ?rows" using assms(2) by simp
  with apply_should_keep_entries [OF tagged a] classify_row_osm_tag [of qt r]
  have "(unrecognized gl (Str (canonical_tag qt r)) \<longrightarrow>
            \<not> keeps gl (classify_row qt r) \<and> Str (canonical_tag qt r) \<in> unknown_tags d) \<and>
         (\<not> unrecognized gl (Str (canonical_tag qt r)) \<longrightarrow> \<not> keeps gl (classify_row qt r) \<longrightarrow>
            mismatch_text (Str (canonical_tag qt r)) (classify_row qt r) \<in> excluded_by_geometry d)"
    by blast
  then show ?thesis by (simp add: mismatch_text_def classify_row_def)
qed

lemma keeps_accept:
  assumes "cells r ''osm_tag'' = Some (Str t)"
  shows "(spec_accept gl t (geom_type (geometry r)) = Keep \<longleftrightarrow> keeps gl r) \<and>
         (spec_accept gl t (geom_type (geometry r)) = Reject_unrecognizedTag \<longleftrightarrow>
            unrecognized gl (Str t))"
proof (cases "t = ''unknown'' \<or> map_of gl t = None")
  case True
  then show ?thesis using assms
    by (auto simp: keeps_def should_keep_feature_def row_getitem_def spec_accept_def
        unrecognized_def)
next
  case False
  then obtain c where c: "map_of gl t = Some c" and t: "t \<noteq> ''unknown''" by auto
  show ?thesis
  proof (cases c)
    case (GStr s)
    then show ?thesis using assms c t
      by (simp add: keeps_def should_keep_feature_def row_getitem_def spec_accept_def Let_def
          unrecognized_def matches_allowed_kind split: option.splits)
  next
    case (GList l)
    then show ?thesis using assms c t
      by (simp add: keeps_def should_keep_feature_def row_getitem_def spec_accept_def Let_def
          unrecognized_def matches_allowed_kind split: option.splits)
  qed
qed

text \<open>
  C7: classification and filter never raise. For every frame they return a kept frame and
  the two sets, and they treat every feature of the input as the validator of the
  specification decides: a feature to keep is among the kept rows, with its tag; a feature
  whose tag is \<^verbatim>\<open>unknown\<close> or not in the lookup is not among the kept rows and
  its tag is among the unknown tags; a feature whose shape does not fit its tag is not among
  the kept rows and its tag and shape are among the geometry mismatches.
\<close>

theorem classify_and_filter_never_raises:
  "\<exists>kept d. classify_and_filter qt gl features_gdf = Inr (kept, d) \<and>
     (\<forall>r\<in>set (rows features_gdf). \<exists>t. get_osm_tag qt r = Inr t \<and>
        (case spec_accept gl t (geom_type (geometry r)) of
           Keep \<Rightarrow> r\<lparr>cells := (cells r)(''osm_tag'' \<mapsto> Str t)\<rparr> \<in> set (rows kept)
         | Reject_unrecognizedTag \<Rightarrow>
             r\<lparr>cells := (cells r)(''osm_tag'' \<mapsto> Str t)\<rparr> \<notin> set (rows kept) \<and>
             Str t \<in> unknown_tags d
         | Reject_geometryMismatch \<Rightarrow>
             r\<lparr>cells := (cells r)(''osm_tag'' \<mapsto> Str t)\<rparr> \<notin> set (rows kept) \<and>
             t @ '' (geometry: '' @ geom_type (geometry r) @ '')'' \<in> excluded_by_geometry d))"
proof -
  from classify_and_filter_eq [of qt gl features_gdf] obtain d where
    run: "classify_and_filter qt gl features_gdf =
          Inr ((classified_frame qt features_gdf)
                 \<lparr>rows := filter (keeps gl) (map (classify_row qt) (rows features_gdf))\<rparr>, d)"
    by (elim exE conjE)
  let ?kept = "(classified_frame qt features_gdf)
                 \<lparr>rows := filter (keeps gl) (map (classify_row qt) (rows features_gdf))\<rparr>"
  have "\<exists>t. get_osm_tag qt r = Inr t \<and>
        (case spec_accept gl t (geom_type (geometry r)) of
           Keep \<Rightarrow> r\<lparr>cells := (cells r)(''osm_tag'' \<mapsto> Str t)\<rparr> \<in> set (rows ?kept)
         | Reject_unrecognizedTag \<Rightarrow>
             r\<lparr>cells := (cells r)(''osm_tag'' \<mapsto> Str t)\<rparr> \<notin> set (rows ?kept) \<and>
             Str t \<in> unknown_tags d
         | Reject_geometryMismatch \<Rightarrow>
             r\<lparr>cells := (cells r)(''osm_tag'' \<mapsto> Str t)\<rparr> \<notin> set (rows ?kept) \<and>
             t @ '' (geometry: '' @ geom_type (geometry r) @ '')'' \<in> excluded_by_geometry d)"
    if r: "r \<in> set (rows features_gdf)" for r
  proof -
    define t where "t = canonical_tag qt r"
    have row: "r\<lparr>cells := (cells r)(''osm_tag'' \<mapsto> Str t)\<rparr> = classify_row qt r"
      by (simp add: classify_row_def t_def)
    have tag: "get_osm_tag qt r = Inr t" by (simp add: get_osm_tag_eq t_def)
    have g: "geom_type (geometry (classify_row qt r)) = geom_type (geometry r)"
      by (simp add: classify_row_def)
    note acc = keeps_accept [of "classify_row qt r" t gl, unfolded g,
        OF classify_row_osm_tag [of qt r, folded t_def]]
    note ent = classify_and_filter_entries [OF run r, folded t_def]
    have mem: "classify_row qt r \<in> set (rows ?kept) \<longleftrightarrow> keeps gl (classify_row qt r)"
      using r by auto
    show ?thesis
    proof (cases "spec_accept gl t (geom_type (geometry r))")
      case Keep
      then show ?thesis using tag acc mem row by auto
    next
      case Reject_unrecognizedTag
      then show ?thesis using tag acc ent mem row by auto
    next
      case Reject_geometryMismatch
      then have "\<not> unrecognized gl (Str t)" "\<not> keeps gl (classify_row qt r)"
        using acc by auto
      then show ?thesis using Reject_geometryMismatch tag ent mem row
        by (auto simp: mismatch_text_def)
    qed
  qed
  then show ?thesis using run by (intro exI [of _ ?kept] exI [of _ d]) simp
qed

text \<open>
  C7 on three features: a park drawn as an area, a park drawn as a point, and a feature
  without a tag of the taxonomy.
\<close>

theorem classify_and_filter_never_raises_witness:
  "\<exists>kept d. classify_and_filter [(''leisure'', [''park''])] [(''leisure=park'', GStr ''area'')]
                three_features_gdf = Inr (kept, d) \<and>
     run_summary (Inr (kept, d)) =
       Inr ([(None, Some (Str ''leisure=park''),
              \<lparr>geom_type = ''Polygon'', wkt = ''POLYGON ((0 0, 1 0, 1 1, 0 0))''\<rparr>)],
            {Str ''unknown''}, {''leisure=park (geometry: Point)''})"
proof -
  from classify_and_filter_never_raises
    [of "[(''leisure'', [''park''])]" "[(''leisure=park'', GStr ''area'')]" three_features_gdf]
  obtain kept d where
    run: "classify_and_filter [(''leisure'', [''park''])] [(''leisure=park'', GStr ''area'')]
                three_features_gdf = Inr (kept, d)"
    by (elim exE conjE)
  have "run_summary (classify_and_filter [(''leisure'', [''park''])]
          [(''leisure=park'', GStr ''area'')] three_features_gdf) =
       Inr ([(None, Some (Str ''leisure=park''),
              \<lparr>geom_type = ''Polygon'', wkt = ''POLYGON ((0 0, 1 0, 1 1, 0 0))''\<rparr>)],
            {Str ''unknown''}, {''leisure=park (geometry: Point)''})"
    by (simp add: run_defs three_features_gdf_def)
  with run show ?thesis by auto
qed

lemma parse_tags_no_unknown:
  assumes "parse_tags cfg = Inr (qt, gl)"
  shows "map_of gl ''unknown'' = None"
proof -
  have "''unknown'' \<notin> fst ` set (entries (declarations cfg))"
  proof
    assume "''unknown'' \<in> fst ` set (entries (declarations cfg))"
    then obtain g where "(''unknown'', g) \<in> set (entries (declarations cfg))" by auto
    then obtain k v where "''unknown'' = k @ ''='' @ v" by (auto simp: entries_iff)
    then have "CHR ''='' \<in> set ''unknown''" by (metis in_set_conv_decomp append_Cons append_Nil)
    then show False by simp
  qed
  then show ?thesis using parse_tags_lookup [OF assms] by (simp add: map_of_eq_None_iff)
qed

text \<open>
  C10: a feature whose tag has a list constraint no element of which names a shape class
  with the feature's shape is rejected and recorded as a geometry mismatch, without an
  error. The empty list and a list of strings other than \<^verbatim>\<open>point\<close>,
  \<^verbatim>\<open>area\<close> and \<^verbatim>\<open>line\<close> are such lists.
\<close>

theorem list_constraint_without_match_rejects:
  assumes "parse_tags cfg = Inr (qt, gl)"
    and "cells r ''osm_tag'' = Some (Str t)"
    and "map_of gl t = Some (GList l)"
    and "\<forall>a\<in>set l. geom_type (geometry r) \<notin> set (mapping_get a)"
  shows "should_keep_feature gl r d =
     Inr (False,
          d\<lparr>excluded_by_geometry :=
              insert (t @ '' (geometry: '' @ geom_type (geometry r) @ '')'')
                (excluded_by_geometry d)\<rparr>)"
proof -
  have "t \<noteq> ''unknown''" using parse_tags_no_unknown [OF assms(1)] assms(3) by auto
  moreover have "\<not> matches_allowed (geom_type (geometry r)) l"
    using assms(4) by (simp add: matches_allowed_iff)
  ultimately show ?thesis using assms(2,3)
    by (simp add: should_keep_feature_def row_getitem_def)
qed

text \<open>
  C10 on the empty list, as parsed from a configuration that declares it.
\<close>

theorem list_constraint_without_match_rejects_witness:
  "should_keep_feature [(''leisure=park'', GList [])] (park_row ''Polygon'') no_diagnostics =
     Inr (False, \<lparr>unknown_tags = {},
                  excluded_by_geometry = {''leisure=park (geometry: Polygon)''}\<rparr>)"
proof -
  have p: "parse_tags empty_geometry_cfg =
     Inr ([(''leisure'', [''park''])], [(''leisure=park'', GList [])])"
    by (simp add: empty_geometry_cfg_def category_tags_def parse_tags_def ensure_key_def
        register_spec_def)
  have c: "cells (park_row ''Polygon'') ''osm_tag'' = Some (Str ''leisure=park'')"
    by (simp add: park_row_def)
  have l: "map_of [(''leisure=park'', GList [])] ''leisure=park'' = Some (GList [])" by simp
  have n: "\<forall>a\<in>set []. geom_type (geometry (park_row ''Polygon'')) \<notin> set (mapping_get a)"
    by simp
  from list_constraint_without_match_rejects [OF p c l n, of no_diagnostics]
  show ?thesis by (simp add: park_row_def no_diagnostics_def)
qed


subsection \<open>Running again\<close>

lemma canonical_tag_osm_tag_cell:
  assumes "''osm_tag'' \<notin> fst ` set qt"
  shows "canonical_tag qt (r\<lparr>cells := (cells r)(''osm_tag'' \<mapsto> c)\<rparr>) = canonical_tag qt r"
proof -
  let ?r = "r\<lparr>cells := (cells r)(''osm_tag'' \<mapsto> c)\<rparr>"
  have same: "cell_value ?r k = cell_value r k" if "k \<in> set (map fst qt)" for k
  proof -
    from that assms have "k \<noteq> ''osm_tag''" by force
    then show ?thesis by (simp add: cell_value_def)
  qed
  have f: "find (\<lambda>k. cell_value ?r k \<noteq> None) (map fst qt) =
           find (\<lambda>k. cell_value r k \<noteq> None) (map fst qt)"
    by (rule find_cong) (simp_all add: same)
  show ?thesis
  proof (cases "find (\<lambda>k. cell_value r k \<noteq> None) (map fst qt)")
    case None
    then show ?thesis using f by (simp add: canonical_tag_def)
  next
    case (Some k)
    then have "k \<in> set (map fst qt)" by (auto simp: find_Some_iff)
    then show ?thesis using f Some same by (simp add: canonical_tag_def)
  qed
qed

lemma classify_row_idem:
  assumes "''osm_tag'' \<notin> fst ` set qt"
  shows "classify_row qt (classify_row qt r) = classify_row qt r"
  using canonical_tag_osm_tag_cell [OF assms, of r "Str (canonical_tag qt r)"]
  by (simp add: classify_row_def)


text \<open>
  C4, amended: when \<^verbatim>\<open>osm_tag\<close> is not itself a query key, classifying
  and filtering the kept features as the filter leaves them, with all their attributes,
  keeps every one of them, and records nothing.
\<close>

theorem classify_and_filter_idempotent:
  assumes "''osm_tag'' \<notin> fst ` set qt"
    and "classify_and_filter qt gl features_gdf = Inr (kept, d)"
  shows "classify_and_filter qt gl kept = Inr (kept, no_diagnostics)"
proof -
  let ?rows = "filter (keeps gl) (map (classify_row qt) (rows features_gdf))"
  from classify_and_filter_eq [of qt gl features_gdf] assms(2)
  have kept: "kept = (classified_frame qt features_gdf)\<lparr>rows := ?rows\<rparr>"
    by auto
  have again: "map (classify_row qt) ?rows = ?rows"
    by (rule map_idI) (auto simp: classify_row_idem [OF assms(1)])
  have rows_kept: "rows kept = ?rows" using kept by simp
  have all: "\<forall>r\<in>set (rows kept). keeps gl (classify_row qt r)"
    using rows_kept by (auto simp: classify_row_idem [OF assms(1)])
  have cf: "(classified_frame qt kept)\<lparr>rows := filter (keeps gl) (map (classify_row qt) (rows kept))\<rparr> = kept"
    unfolding rows_kept again
    by (simp add: kept classified_frame_def)
  from classify_and_filter_eq [of qt gl kept] all cf show ?thesis by auto
qed

text \<open>
  C4, amended, on the three features.
\<close>

theorem classify_and_filter_idempotent_witness:
  "\<exists>kept d. classify_and_filter [(''leisure'', [''park''])] [(''leisure=park'', GStr ''area'')]
                three_features_gdf = Inr (kept, d) \<and>
     classify_and_filter [(''leisure'', [''park''])] [(''leisure=park'', GStr ''area'')] kept =
       Inr (kept, no_diagnostics) \<and>
     length (rows kept) = 1"
proof -
  obtain kept d where
    run: "classify_and_filter [(''leisure'', [''park''])] [(''leisure=park'', GStr ''area'')]
                three_features_gdf = Inr (kept, d)"
    using classify_and_filter_eq
      [of "[(''leisure'', [''park''])]" "[(''leisure=park'', GStr ''area'')]" three_features_gdf]
    by (elim exE conjE)
  have keys: "''osm_tag'' \<notin> fst ` set [(''leisure'', [''park''])]" by simp
  have "run_summary (classify_and_filter [(''leisure'', [''park''])]
          [(''leisure=park'', GStr ''area'')] three_features_gdf) =
       Inr ([(None, Some (Str ''leisure=park''),
              \<lparr>geom_type = ''Polygon'', wkt = ''POLYGON ((0 0, 1 0, 1 1, 0 0))''\<rparr>)],
            {Str ''unknown''}, {''leisure=park (geometry: Point)''})"
    by (simp add: run_defs three_features_gdf_def)
  then have "map (\<lambda>r. (cells r ''name'', cells r ''osm_tag'', geometry r)) (rows kept) =
      [(None, Some (Str ''leisure=park''),
        \<lparr>geom_type = ''Polygon'', wkt = ''POLYGON ((0 0, 1 0, 1 1, 0 0))''\<rparr>)]"
    unfolding run by (simp add: run_summary_def)
  from arg_cong [OF this, of length] have len: "length (rows kept) = 1" by simp
  have idem: "classify_and_filter [(''leisure'', [''park''])] [(''leisure=park'', GStr ''area'')]
      kept = Inr (kept, no_diagnostics)"
    by (rule classify_and_filter_idempotent [OF keys run])
  show ?thesis by (intro exI conjI) (rule run, rule idem, rule len)
qed

text \<open>
  C4 as stated fails: the result frame has only the columns name, osm_tag and geometry, so
  a second extraction finds no query key on the park it kept, tags it
  \<^verbatim>\<open>unknown\<close> and rejects it.
\<close>

theorem rerun_rejects_kept_output:
  "run_summary (extract_selected_tags_from_osm_complete park_cfg three_features_gdf) =
     Inr ([(Some Null, Some (Str ''leisure=park''),
            \<lparr>geom_type = ''Polygon'', wkt = ''POLYGON ((0 0, 1 0, 1 1, 0 0))''\<rparr>)],
          {Str ''unknown''}, {''leisure=park (geometry: Point)''}) \<and>
   run_summary (rerun park_cfg three_features_gdf) = Inr ([], {Str ''unknown''}, {})"
  by (simp add: rerun_def run_defs park_cfg_def three_features_gdf_def)


subsection \<open>The result frame\<close>

lemma zip_replicate_same:
  "map (\<lambda>(r, v). f r v) (zip rs (replicate (length rs) x)) = map (\<lambda>r. f r x) rs"
  by (induction rs) simp_all

lemma ensure_name_eq:
  "ensure_name df =
     (if ''name'' \<in> set (columns df) then df
      else \<lparr>columns = columns df @ [''name''],
            rows = map (\<lambda>r. r\<lparr>cells := (cells r)(''name'' \<mapsto> Null)\<rparr>) (rows df)\<rparr>)"
  by (simp add: ensure_name_def set_column_def zip_replicate_same)

lemma project_result_Inr:
  assumes "project_result df = Inr out"
  shows "''osm_tag'' \<in> set (columns df) \<and> ''geometry'' \<in> set (columns df) \<and>
         out = \<lparr>columns = [''name'', ''osm_tag'', ''geometry''],
                rows = map (project_row (''name'' \<in> set (columns df))) (rows df)\<rparr>"
  using assms
  by (auto simp: project_result_def select_columns_def ensure_name_eq project_row_def
      split: if_splits option.splits)

lemma project_result_eq:
  assumes "''osm_tag'' \<in> set (columns df)" and "''geometry'' \<in> set (columns df)"
  shows "project_result df =
     Inr \<lparr>columns = [''name'', ''osm_tag'', ''geometry''],
          rows = map (project_row (''name'' \<in> set (columns df))) (rows df)\<rparr>"
  using assms
  by (auto simp: project_result_def select_columns_def ensure_name_eq project_row_def)

lemma extract_Inr:
  assumes "extract_selected_tags_from_osm_complete cfg df = Inr (out, d)"
  shows "\<exists>qt gl kept. parse_tags cfg = Inr (qt, gl) \<and>
           classify_and_filter qt gl df = Inr (kept, d) \<and> project_result kept = Inr out"
  using assms
  by (auto simp: extract_selected_tags_from_osm_complete_def split: sum.splits prod.splits)

lemma classify_and_filter_Inr:
  assumes "classify_and_filter qt gl df = Inr (kept, d)"
  shows "kept = (classified_frame qt df)\<lparr>rows := filter (keeps gl) (map (classify_row qt) (rows df))\<rparr>"
  using classify_and_filter_eq [of qt gl df] assms by auto

lemma keeps_in_lookup:
  assumes "keeps gl r" and "cells r ''osm_tag'' = Some (Str t)"
  shows "map_of gl t \<noteq> None"
  using should_keep_feature_cases [OF assms(2), of gl no_diagnostics] assms(1) by auto

lemma parse_tags_lookup_declared:
  assumes "parse_tags cfg = Inr (qt, gl)" and "map_of gl t = Some g"
  shows "\<exists>k s v vs. (k, s) \<in> set (declarations cfg) \<and> tag_value s = Some v \<and>
           t = k @ ''='' @ v \<and> map_of qt k = Some vs \<and> v \<in> set vs"
proof -
  from assms have "map_of (rev (entries (declarations cfg))) t = Some g"
    using parse_tags_lookup by metis
  then have "(t, g) \<in> set (entries (declarations cfg))"
    using map_of_SomeD by fastforce
  then obtain k s v where d: "(k, s) \<in> set (declarations cfg)" "tag_value s = Some v"
    "t = k @ ''='' @ v"
    by (auto simp: entries_iff)
  then have "v \<in> vals qt k"
    using parse_tags_vals [OF assms(1), of k] by (auto simp: declared_values_def)
  then obtain vs where "map_of qt k = Some vs" "v \<in> set vs"
    by (auto simp: vals_def split: option.splits)
  with d show ?thesis by blast
qed



subsection \<open>Splitting a tag\<close>

lemma split_on_no_sep: "sep \<notin> set v \<Longrightarrow> split_on sep v = [v]"
  by (induction v) auto

lemma split_on_pair:
  "sep \<notin> set k \<Longrightarrow> sep \<notin> set v \<Longrightarrow> split_on sep (k @ sep # v) = [k, v]"
  by (induction k) (auto simp: split_on_no_sep)


text \<open>
  C6, amended: when no key and no value of the configuration contains
  \<^verbatim>\<open>=\<close>, the tag of every row of the result splits on \<^verbatim>\<open>=\<close>
  into exactly a key and a value, the value is among the query values of the key, and the
  tag is in the geometry lookup.
\<close>

theorem osm_tag_round_trip:
  assumes "\<forall>d\<in>set (declarations cfg).
             CHR ''='' \<notin> set (fst d) \<and> (\<forall>v. tag_value (snd d) = Some v \<longrightarrow> CHR ''='' \<notin> set v)"
    and "parse_tags cfg = Inr (qt, gl)"
    and "extract_selected_tags_from_osm_complete cfg features_gdf = Inr (result_gdf, d)"
    and "r \<in> set (rows result_gdf)"
  shows "\<exists>t k v vs. cells r ''osm_tag'' = Some (Str t) \<and> split_on CHR ''='' t = [k, v] \<and>
           map_of qt k = Some vs \<and> v \<in> set vs \<and> map_of gl (k @ ''='' @ v) \<noteq> None"
proof -
  from extract_Inr [OF assms(3)] assms(2) obtain kept where
    run: "classify_and_filter qt gl features_gdf = Inr (kept, d)" and
    pr: "project_result kept = Inr result_gdf"
    by auto
  from project_result_Inr [OF pr] assms(4) obtain r' where
    r': "r' \<in> set (rows kept)" and c: "cells r ''osm_tag'' = cells r' ''osm_tag''"
    by (auto simp: project_row_def)
  from classify_and_filter_Inr [OF run] r' obtain r0 where
    k: "keeps gl r'" and r0: "r' = classify_row qt r0"
    by auto
  define t where "t = canonical_tag qt r0"
  have ct: "cells r' ''osm_tag'' = Some (Str t)" by (simp add: r0 t_def classify_row_osm_tag)
  from keeps_in_lookup [OF k ct] obtain g where g: "map_of gl t = Some g" by auto
  from parse_tags_lookup_declared [OF assms(2) g] obtain k s v vs where
    d: "(k, s) \<in> set (declarations cfg)" "tag_value s = Some v" "t = k @ ''='' @ v"
       "map_of qt k = Some vs" "v \<in> set vs"
    by blast
  from assms(1) d(1,2) have "CHR ''='' \<notin> set k" "CHR ''='' \<notin> set v" by auto
  then have "split_on CHR ''='' t = [k, v]" using d(3) by (simp add: split_on_pair)
  then show ?thesis using c ct d g by auto
qed

text \<open>
  C6, amended, on the three features.
\<close>

theorem osm_tag_round_trip_witness:
  "\<exists>result_gdf d r. extract_selected_tags_from_osm_complete park_cfg three_features_gdf =
       Inr (result_gdf, d) \<and> rows result_gdf = [r] \<and>
     cells r ''osm_tag'' = Some (Str ''leisure=park'') \<and>
     (\<exists>t k v vs. cells r ''osm_tag'' = Some (Str t) \<and> split_on CHR ''='' t = [k, v] \<and>
        map_of [(''leisure'', [''park''])] k = Some vs \<and> v \<in> set vs \<and>
        map_of [(''leisure=park'', GStr ''area'')] (k @ ''='' @ v) \<noteq> None)"
proof -
  have noeq: "\<forall>d\<in>set (declarations park_cfg).
             CHR ''='' \<notin> set (fst d) \<and> (\<forall>v. tag_value (snd d) = Some v \<longrightarrow> CHR ''='' \<notin> set v)"
    by (simp add: park_cfg_def declarations_def item_declarations_def category_tags_def)
  obtain result_gdf d where
    run: "extract_selected_tags_from_osm_complete park_cfg three_features_gdf = Inr (result_gdf, d)"
    using park_run by (auto simp: run_summary_def split: sum.splits)
  with park_run obtain r where r: "rows result_gdf = [r]"
    and t: "cells r ''osm_tag'' = Some (Str ''leisure=park'')"
    by (auto simp: run_summary_def)
  then have "r \<in> set (rows result_gdf)" by simp
  from osm_tag_round_trip [OF noeq parse_park_cfg run this] run r t show ?thesis by blast
qed

text \<open>
  C6 as stated fails: with the key \<^verbatim>\<open>a=b\<close> and the value
  \<^verbatim>\<open>c=d\<close> the kept feature has the tag \<^verbatim>\<open>a=b=c=d\<close>, which
  splits into four pieces, none of them a key of the taxonomy.
\<close>

theorem osm_tag_with_equals_signs:
  "parse_tags equals_cfg = Inr ([(''a=b'', [''c=d''])], [(''a=b=c=d'', GStr ''any'')]) \<and>
   run_summary (extract_selected_tags_from_osm_complete equals_cfg equals_gdf) =
     Inr ([(Some Null, Some (Str ''a=b=c=d''), \<lparr>geom_type = ''Point'', wkt = ''POINT (0 0)''\<rparr>)],
          {}, {}) \<and>
   split_on CHR ''='' ''a=b=c=d'' = [''a'', ''b'', ''c'', ''d'']"
  by (simp add: run_defs equals_cfg_def equals_gdf_def)

subsection \<open>The projection and the run as a whole\<close>

lemma classified_frame_columns:
  "''geometry'' \<in> set (columns (classified_frame qt df)) \<longleftrightarrow> ''geometry'' \<in> set (columns df)"
  "''name'' \<in> set (columns (classified_frame qt df)) \<longleftrightarrow> ''name'' \<in> set (columns df)"
  "''osm_tag'' \<in> set (columns (classified_frame qt df))"
  by (auto simp: classified_frame_def)

lemma extract_eq:
  assumes "parse_tags cfg = Inr (qt, gl)"
    and "classify_and_filter qt gl df = Inr (kept, d)"
    and "''geometry'' \<in> set (columns df)"
  shows "extract_selected_tags_from_osm_complete cfg df =
     Inr (\<lparr>columns = [''name'', ''osm_tag'', ''geometry''],
           rows = map (project_row (''name'' \<in> set (columns df))) (rows kept)\<rparr>, d)"
proof -
  have kept: "kept = (classified_frame qt df)\<lparr>rows := filter (keeps gl) (map (classify_row qt) (rows df))\<rparr>"
    using classify_and_filter_Inr [OF assms(2)] .
  have cols: "columns kept = columns (classified_frame qt df)" by (simp add: kept)
  have "project_result kept =
     Inr \<lparr>columns = [''name'', ''osm_tag'', ''geometry''],
          rows = map (project_row (''name'' \<in> set (columns kept))) (rows kept)\<rparr>"
    by (rule project_result_eq) (simp_all add: cols classified_frame_columns assms(3))
  then show ?thesis
    using assms(1,2)
    by (simp add: extract_selected_tags_from_osm_complete_def cols classified_frame_columns)
qed

lemma wf_kept_row:
  assumes "wf_frame df" and "classify_and_filter qt gl df = Inr (kept, d)"
    and "r \<in> set (rows kept)"
  shows "dom (cells r) = insert ''osm_tag'' (set (columns df) - {''geometry''})"
proof -
  from classify_and_filter_Inr [OF assms(2)] assms(3) obtain r0 where
    r0: "r0 \<in> set (rows df)" and r: "r = classify_row qt r0"
    by auto
  from assms(1) r0 have "dom (cells r0) = set (columns df) - {''geometry''}"
    by (auto simp: wf_frame_def list_all_iff)
  then show ?thesis by (simp add: r classify_row_def)
qed


text \<open>
  C8: on a well-formed frame the extraction returns a frame with exactly the columns name,
  osm_tag and geometry, one row for each kept feature and in the same order; each row has
  exactly a name cell and an osm_tag cell, the tag and the shape of the kept feature, and
  as name the feature's name, or an explicit null when the input frame has no name column.
\<close>

theorem result_name_osm_tag_geometry:
  assumes "wf_frame features_gdf"
    and "parse_tags cfg = Inr (qt, gl)"
    and "classify_and_filter qt gl features_gdf = Inr (kept, d)"
  shows "\<exists>result_gdf.
     extract_selected_tags_from_osm_complete cfg features_gdf = Inr (result_gdf, d) \<and>
     columns result_gdf = [''name'', ''osm_tag'', ''geometry''] \<and>
     length (rows result_gdf) = length (rows kept) \<and>
     (\<forall>i<length (rows kept).
        dom (cells (rows result_gdf ! i)) = {''name'', ''osm_tag''} \<and>
        cells (rows result_gdf ! i) ''osm_tag'' = cells (rows kept ! i) ''osm_tag'' \<and>
        geometry (rows result_gdf ! i) = geometry (rows kept ! i) \<and>
        cells (rows result_gdf ! i) ''name'' =
          (if ''name'' \<in> set (columns features_gdf) then cells (rows kept ! i) ''name''
           else Some Null))"
proof -
  let ?has = "''name'' \<in> set (columns features_gdf)"
  let ?out = "\<lparr>columns = [''name'', ''osm_tag'', ''geometry''],
           rows = map (project_row ?has) (rows kept)\<rparr>"
  have g: "''geometry'' \<in> set (columns features_gdf)" using assms(1) by (simp add: wf_frame_def)
  have run: "extract_selected_tags_from_osm_complete cfg features_gdf = Inr (?out, d)"
    by (rule extract_eq [OF assms(2,3) g])
  have row: "dom (cells (project_row ?has r)) = {''name'', ''osm_tag''} \<and>
        cells (project_row ?has r) ''osm_tag'' = cells r ''osm_tag'' \<and>
        geometry (project_row ?has r) = geometry r \<and>
        cells (project_row ?has r) ''name'' = (if ?has then cells r ''name'' else Some Null)"
    if "r \<in> set (rows kept)" for r
  proof -
    have d: "dom (cells r) = insert ''osm_tag'' (set (columns features_gdf) - {''geometry''})"
      using wf_kept_row [OF assms(1,3) that] .
    have "dom (cells (project_row ?has r)) = {''name'', ''osm_tag''}"
      using d by (auto simp: project_row_def)
    then show ?thesis by (simp add: project_row_def)
  qed
  have "\<forall>i<length (rows kept).
        dom (cells (rows ?out ! i)) = {''name'', ''osm_tag''} \<and>
        cells (rows ?out ! i) ''osm_tag'' = cells (rows kept ! i) ''osm_tag'' \<and>
        geometry (rows ?out ! i) = geometry (rows kept ! i) \<and>
        cells (rows ?out ! i) ''name'' =
          (if ?has then cells (rows kept ! i) ''name'' else Some Null)"
    using row by simp
  then show ?thesis using run by (intro exI [of _ ?out]) simp
qed

text \<open>
  C8 on the three features, whose frame has no name column.
\<close>

theorem result_name_osm_tag_geometry_witness:
  "wf_frame three_features_gdf \<and>
   (\<exists>result_gdf d.
      extract_selected_tags_from_osm_complete park_cfg three_features_gdf = Inr (result_gdf, d) \<and>
      columns result_gdf = [''name'', ''osm_tag'', ''geometry''] \<and>
      run_summary (Inr (result_gdf, d)) =
        Inr ([(Some Null, Some (Str ''leisure=park''),
               \<lparr>geom_type = ''Polygon'', wkt = ''POLYGON ((0 0, 1 0, 1 1, 0 0))''\<rparr>)],
             {Str ''unknown''}, {''leisure=park (geometry: Point)''}))"
proof -
  obtain kept d where
    run: "classify_and_filter [(''leisure'', [''park''])] [(''leisure=park'', GStr ''area'')]
                three_features_gdf = Inr (kept, d)"
    using classify_and_filter_eq
      [of "[(''leisure'', [''park''])]" "[(''leisure=park'', GStr ''area'')]" three_features_gdf]
    by (elim exE conjE)
  from result_name_osm_tag_geometry [OF wf_three_features parse_park_cfg run]
  obtain result_gdf where
    ex: "extract_selected_tags_from_osm_complete park_cfg three_features_gdf = Inr (result_gdf, d)"
    and cols: "columns result_gdf = [''name'', ''osm_tag'', ''geometry'']"
    by (elim exE conjE)
  have sm: "run_summary (Inr (result_gdf, d)) =
        Inr ([(Some Null, Some (Str ''leisure=park''),
               \<lparr>geom_type = ''Polygon'', wkt = ''POLYGON ((0 0, 1 0, 1 1, 0 0))''\<rparr>)],
             {Str ''unknown''}, {''leisure=park (geometry: Point)''})"
    using park_run unfolding ex .
  show ?thesis
    by (intro conjI exI) (rule wf_three_features, rule ex, rule cols, rule sm)
qed

end
